theory Spec2Isabelle
  imports Main "HOL-Library.Word" "HOL-Library.Monad_Syntax"
begin

unbundle bit_operations_syntax

section \<open>Machine types\<close>

type_synonym u8 = "8 word"
type_synonym u16 = "16 word"
type_synonym u32 = "32 word"

section \<open>The fake SD driver (\<^verbatim>\<open>src/fakedriver/sd_card.c\<close>)\<close>

text \<open>
  The status codes the driver returns. \<^verbatim>\<open>diskio.h\<close> is not among the sources; the
  driver uses three of its names, kept here as the constructors of a datatype.
\<close>

datatype DRESULT = RES_OK | RES_ERROR | RES_PARERR

definition SECTOR_SIZE :: nat where
  "SECTOR_SIZE = 512"

definition MAX_OVERLAY_SECTORS :: nat where
  "MAX_OVERLAY_SECTORS = 256"

text \<open>
  The file-scope variables of the driver. A pointer that may be \<^verbatim>\<open>NULL\<close> is an
  option; the two overlay arrays are lists of their declared sizes.
\<close>

record sd_state =
  g_img_ram :: "u8 list option"
  g_img_size :: u32
  g_sector_count :: u32
  g_sd_ready :: bool
  overlay_sector_id :: "u16 list"
  overlay_sector_data :: "u8 list list"
  overlay_used_count :: u16

text \<open>The state the program starts in: the initialisers, and zeroed arrays.\<close>

definition sd_initial :: sd_state where
  "sd_initial =
     \<lparr> g_img_ram = None, g_img_size = 0, g_sector_count = 0, g_sd_ready = False,
       overlay_sector_id = replicate MAX_OVERLAY_SECTORS 0,
       overlay_sector_data = replicate MAX_OVERLAY_SECTORS (replicate SECTOR_SIZE 0),
       overlay_used_count = 0 \<rparr>"

text \<open>
  \<^verbatim>\<open>memcpy(dst + doff, src + soff, n)\<close> on byte arrays held as lists. The C call is
  only defined when both ranges lie inside their arrays; the theorems below state
  the buffer lengths that guarantee it.
\<close>

definition memcpy :: "u8 list \<Rightarrow> nat \<Rightarrow> u8 list \<Rightarrow> nat \<Rightarrow> nat \<Rightarrow> u8 list" where
  "memcpy dst doff src soff n = take doff dst @ take n (drop soff src) @ drop (doff + n) dst"

text \<open>\<^verbatim>\<open>overlay_init\<close>: every slot is marked free; the payloads are left as they are.\<close>

definition overlay_init :: "sd_state \<Rightarrow> sd_state" where
  "overlay_init s =
     s\<lparr> overlay_sector_id := replicate MAX_OVERLAY_SECTORS 0xFFFF,
        overlay_used_count := 0 \<rparr>"

text \<open>
  \<^verbatim>\<open>overlay_find\<close>: the first slot whose id equals the sector number cut to 16 bits,
  or \<^verbatim>\<open>0xFFFF\<close>. The loop is the function \<open>overlay_find_from\<close>, started at slot 0.
\<close>

function overlay_find_from :: "u16 list \<Rightarrow> u32 \<Rightarrow> nat \<Rightarrow> u16" where
  "overlay_find_from ids sector i =
     (if i < MAX_OVERLAY_SECTORS
      then (if ids ! i = (ucast sector :: u16) then of_nat i
            else overlay_find_from ids sector (i + 1))
      else 0xFFFF)"
  by pat_completeness auto
termination
  by (relation "measure (\<lambda>(ids, sector, i). MAX_OVERLAY_SECTORS - i)") auto

declare overlay_find_from.simps [simp del]

definition overlay_find :: "sd_state \<Rightarrow> u32 \<Rightarrow> u16" where
  "overlay_find s sector = overlay_find_from (overlay_sector_id s) sector 0"

text \<open>
  \<^verbatim>\<open>overlay_get_or_create\<close>: the slot of the sector if it has one; otherwise the first
  free slot is claimed and seeded with the sector of the embedded image; \<^verbatim>\<open>0xFFFF\<close>
  when no slot is free. \<open>bin\<close> is the embedded image \<^verbatim>\<open>disk_bin\<close>.
\<close>

function overlay_alloc_from :: "u8 list \<Rightarrow> sd_state \<Rightarrow> u32 \<Rightarrow> nat \<Rightarrow> u16 \<times> sd_state" where
  "overlay_alloc_from bin s sector idx =
     (if idx < MAX_OVERLAY_SECTORS
      then (if overlay_sector_id s ! idx = 0xFFFF
            then (of_nat idx,
                  s\<lparr> overlay_sector_id := (overlay_sector_id s)[idx := ucast sector],
                     overlay_sector_data := (overlay_sector_data s)
                       [idx := memcpy (overlay_sector_data s ! idx) 0 bin
                                 (unat (sector * 512)) SECTOR_SIZE],
                     overlay_used_count := overlay_used_count s + 1 \<rparr>)
            else overlay_alloc_from bin s sector (idx + 1))
      else (0xFFFF, s))"
  by pat_completeness auto
termination
  by (relation "measure (\<lambda>(bin, s, sector, idx). MAX_OVERLAY_SECTORS - idx)") auto

declare overlay_alloc_from.simps [simp del]

definition overlay_get_or_create :: "u8 list \<Rightarrow> sd_state \<Rightarrow> u32 \<Rightarrow> u16 \<times> sd_state" where
  "overlay_get_or_create bin s sector =
     (let idx = overlay_find s sector
      in if idx \<noteq> 0xFFFF then (idx, s) else overlay_alloc_from bin s sector 0)"

text \<open>
  \<^verbatim>\<open>ensure_sd_open\<close>. The embedded image is the array \<open>bin\<close>, its size
  \<^verbatim>\<open>disk_bin_size\<close> the length of the array (an array is never \<^verbatim>\<open>NULL\<close>, which
  leaves the size test). Whether \<^verbatim>\<open>malloc\<close> succeeds is the input \<open>alloc_ok\<close>.
\<close>

definition ensure_sd_open :: "u8 list \<Rightarrow> bool \<Rightarrow> sd_state \<Rightarrow> bool \<times> sd_state" where
  "ensure_sd_open bin alloc_ok s =
     (if g_sd_ready s then (True, s)
      else if length bin = 0 then (False, s)
      else
        let sz = (of_nat (length bin) :: u32);
            usable = sz - (sz mod 512);
            s1 = s\<lparr> g_img_size := sz, g_sector_count := usable div 512 \<rparr>
        in if \<not> alloc_ok
           then (True, (overlay_init (s1\<lparr> g_img_ram := None \<rparr>))\<lparr> g_sd_ready := True \<rparr>)
           else (True, s1\<lparr> g_img_ram := Some (memcpy (replicate (unat usable) 0) 0 bin 0 (unat usable)),
                           g_sd_ready := True \<rparr>))"

text \<open>
  The overlay branch of \<^verbatim>\<open>Read_SD_sectors\<close>: sector by sector, from the overlay slot
  when \<^verbatim>\<open>overlay_find\<close> gives one and from the embedded image otherwise. The counter
  \<open>i\<close> stays below the 16-bit \<open>count\<close>, so it is a \<open>nat\<close>.
\<close>

function read_overlay_loop ::
    "u8 list \<Rightarrow> sd_state \<Rightarrow> u32 \<Rightarrow> u8 list \<Rightarrow> nat \<Rightarrow> nat \<Rightarrow> u8 list" where
  "read_overlay_loop bin s sector dst i n =
     (if i < n
      then (let idx = overlay_find s sector;
                dst' = (if idx \<noteq> 0xFFFF
                        then memcpy dst (i * SECTOR_SIZE) (overlay_sector_data s ! unat idx) 0 SECTOR_SIZE
                        else memcpy dst (i * SECTOR_SIZE) bin (unat (sector * 512)) SECTOR_SIZE)
            in read_overlay_loop bin s (sector + 1) dst' (i + 1) n)
      else dst)"
  by pat_completeness auto
termination
  by (relation "measure (\<lambda>(bin, s, sector, dst, i, n). n - i)") auto

declare read_overlay_loop.simps [simp del]

definition Read_SD_sectors ::
    "u8 list \<Rightarrow> bool \<Rightarrow> sd_state \<Rightarrow> u32 \<Rightarrow> u16 \<Rightarrow> u8 list option
       \<Rightarrow> DRESULT \<times> sd_state \<times> u8 list option" where
  "Read_SD_sectors bin alloc_ok s address count SDbuffer =
     (case ensure_sd_open bin alloc_ok s of (ok, s1) \<Rightarrow>
        (case SDbuffer of
           None \<Rightarrow> (RES_ERROR, s1, SDbuffer)
         | Some buf \<Rightarrow>
             if \<not> ok then (RES_ERROR, s1, SDbuffer)
             else if count = 0 then (RES_PARERR, s1, SDbuffer)
             else if address \<ge> g_sector_count s1 then (RES_PARERR, s1, SDbuffer)
             else if (ucast count :: u32) > g_sector_count s1 - address then (RES_PARERR, s1, SDbuffer)
             else (case g_img_ram s1 of
                     Some ram \<Rightarrow>
                       (RES_OK, s1, Some (memcpy buf 0 ram (unat (address * 512)) (unat count * SECTOR_SIZE)))
                   | None \<Rightarrow>
                       (RES_OK, s1, Some (read_overlay_loop bin s1 address buf 0 (unat count))))))"

text \<open>
  The overlay branch of \<^verbatim>\<open>Write_SD_sectors\<close>: each sector gets its slot and its
  payload; the first sector with no slot ends the call with \<^verbatim>\<open>RES_ERROR\<close>.
\<close>

function write_overlay_loop ::
    "u8 list \<Rightarrow> sd_state \<Rightarrow> u32 \<Rightarrow> u8 list \<Rightarrow> nat \<Rightarrow> nat \<Rightarrow> DRESULT \<times> sd_state" where
  "write_overlay_loop bin s sector src i n =
     (if i < n
      then (case overlay_get_or_create bin s sector of (idx, s') \<Rightarrow>
              if idx = 0xFFFF then (RES_ERROR, s')
              else write_overlay_loop bin
                     (s'\<lparr> overlay_sector_data := (overlay_sector_data s')
                            [unat idx := memcpy (overlay_sector_data s' ! unat idx) 0 src
                                           (i * SECTOR_SIZE) SECTOR_SIZE] \<rparr>)
                     (sector + 1) src (i + 1) n)
      else (RES_OK, s))"
  by pat_completeness auto
termination
  by (relation "measure (\<lambda>(bin, s, sector, src, i, n). n - i)") auto

declare write_overlay_loop.simps [simp del]

definition Write_SD_sectors ::
    "u8 list \<Rightarrow> bool \<Rightarrow> sd_state \<Rightarrow> u32 \<Rightarrow> u16 \<Rightarrow> u8 list option \<Rightarrow> DRESULT \<times> sd_state" where
  "Write_SD_sectors bin alloc_ok s address count SDbuffer =
     (case ensure_sd_open bin alloc_ok s of (ok, s1) \<Rightarrow>
        (case SDbuffer of
           None \<Rightarrow> (RES_ERROR, s1)
         | Some src \<Rightarrow>
             if \<not> ok then (RES_ERROR, s1)
             else if count = 0 then (RES_PARERR, s1)
             else if address \<ge> g_sector_count s1 then (RES_PARERR, s1)
             else if (ucast count :: u32) > g_sector_count s1 - address then (RES_PARERR, s1)
             else (case g_img_ram s1 of
                     Some ram \<Rightarrow>
                       (RES_OK, s1\<lparr> g_img_ram :=
                          Some (memcpy ram (unat (address * 512)) src 0 (unat count * SECTOR_SIZE)) \<rparr>)
                   | None \<Rightarrow> write_overlay_loop bin s1 address src 0 (unat count))))"

text \<open>
  The invariant of an opened store: the sector count fits the image, the mutable copy
  (when there is one) has exactly the usable size, and the overlay arrays have their
  declared sizes. \<open>ov_inv\<close> is its overlay part.
\<close>

definition ov_inv :: "sd_state \<Rightarrow> bool" where
  "ov_inv s \<longleftrightarrow>
     length (overlay_sector_id s) = MAX_OVERLAY_SECTORS
     \<and> length (overlay_sector_data s) = MAX_OVERLAY_SECTORS
     \<and> (\<forall>d \<in> set (overlay_sector_data s). length d = SECTOR_SIZE)"

definition sd_inv :: "u8 list \<Rightarrow> sd_state \<Rightarrow> bool" where
  "sd_inv bin s \<longleftrightarrow>
     g_sd_ready s
     \<and> unat (g_sector_count s) * SECTOR_SIZE \<le> length bin
     \<and> unat (g_sector_count s) * SECTOR_SIZE < 2 ^ 32
     \<and> (case g_img_ram s of
          Some ram \<Rightarrow> length ram = unat (g_sector_count s) * SECTOR_SIZE
        | None \<Rightarrow>
            length (overlay_sector_id s) = MAX_OVERLAY_SECTORS
            \<and> length (overlay_sector_data s) = MAX_OVERLAY_SECTORS
            \<and> (\<forall>d \<in> set (overlay_sector_data s). length d = SECTOR_SIZE))"

text \<open>
  What the overlay branch of \<^verbatim>\<open>Read_SD_sectors\<close> copies for one sector: the body of its
  loop, without the destination.
\<close>

definition read_sector :: "u8 list \<Rightarrow> sd_state \<Rightarrow> u32 \<Rightarrow> u8 list" where
  "read_sector bin s sector =
     (let idx = overlay_find s sector
      in if idx \<noteq> 0xFFFF then take SECTOR_SIZE (overlay_sector_data s ! unat idx)
         else take SECTOR_SIZE (drop (unat (sector * 512)) bin))"



definition full_overlay :: "sd_state \<Rightarrow> sd_state" where
  "full_overlay s =
     s\<lparr> overlay_sector_id := map of_nat [0..<MAX_OVERLAY_SECTORS],
        overlay_sector_data := replicate MAX_OVERLAY_SECTORS (replicate SECTOR_SIZE 3),
        overlay_used_count := of_nat MAX_OVERLAY_SECTORS \<rparr>"

section \<open>The in-memory file system (\<^verbatim>\<open>fakefs\<close>)\<close>

text \<open>
  Modelled from the spec: the header \<^verbatim>\<open>ff.h\<close>, which declares the result codes, the
  attribute and mode bits and the structures \<^verbatim>\<open>FATFS\<close>, \<^verbatim>\<open>FFOBJID\<close>, \<^verbatim>\<open>FIL\<close>, \<^verbatim>\<open>DIR\<close>
  and \<^verbatim>\<open>FILINFO\<close>, is not among the sources. The result codes are the names the code
  returns (the spec's NotFound is \<^verbatim>\<open>FR_NO_FILE\<close>, AlreadyExists \<^verbatim>\<open>FR_EXIST\<close>, Denied
  \<^verbatim>\<open>FR_DENIED\<close>, InvalidObject \<^verbatim>\<open>FR_INVALID_OBJECT\<close>); the bits have the values of the
  FatFs header; the structures have the fields the code reads or writes, with
  \<^verbatim>\<open>DWORD\<close>, \<^verbatim>\<open>FSIZE_t\<close> and \<^verbatim>\<open>UINT\<close> 32 bits wide, \<^verbatim>\<open>WORD\<close> 16 and \<^verbatim>\<open>BYTE\<close> 8. The size of
  \<^verbatim>\<open>FILINFO.fname\<close> is a parameter of the functions that fill it.
\<close>

datatype FRESULT =
    FR_OK | FR_INT_ERR | FR_NOT_READY | FR_NO_FILE | FR_NO_PATH | FR_DENIED
  | FR_EXIST | FR_INVALID_OBJECT | FR_INVALID_PARAMETER

definition AM_DIR :: u8 where "AM_DIR = 0x10"
definition AM_ARC :: u8 where "AM_ARC = 0x20"

definition FA_READ :: u8 where "FA_READ = 0x01"
definition FA_WRITE :: u8 where "FA_WRITE = 0x02"
definition FA_CREATE_NEW :: u8 where "FA_CREATE_NEW = 0x04"
definition FA_CREATE_ALWAYS :: u8 where "FA_CREATE_ALWAYS = 0x08"
definition FA_OPEN_ALWAYS :: u8 where "FA_OPEN_ALWAYS = 0x10"

definition FS_FAT16 :: u8 where "FS_FAT16 = 2"

record FATFS =
  fs_type :: u8
  csize :: u16
  fs_id :: u16
  n_fatent :: u32
  database :: u32

record FFOBJID =
  obj_fs :: bool
  obj_id :: u16
  obj_attr :: u8
  sclust :: u32
  objsize :: u32

text \<open>
  A pointer to a node is the index of the node in \<^verbatim>\<open>g_node_pool\<close>, \<open>None\<close> for
  \<^verbatim>\<open>NULL\<close>. \<^verbatim>\<open>FIL.dir_ptr\<close> holds such a pointer.
\<close>

record FIL =
  obj :: FFOBJID
  flag :: u8
  err :: u8
  fptr :: u32
  clust :: u32
  sect :: u32
  dir_ptr :: "nat option"

record DIR =
  dir :: u32

record FILINFO =
  fsize :: u32
  fattrib :: u8
  fname :: string

subsection \<open>The node pool\<close>

text \<open>
  \<^verbatim>\<open>struct FsNode\<close>. The name is the C string in \<^verbatim>\<open>name[100]\<close>, without its terminator;
  the field \<^verbatim>\<open>size\<close> is \<open>size'\<close> here; \<open>data\<close> is the heap buffer, \<open>None\<close> for \<^verbatim>\<open>NULL\<close>.
\<close>

record FsNode =
  name :: string
  attr :: u8
  parent :: "nat option"
  firstChild :: "nat option"
  nextSibling :: "nat option"
  data :: "u8 list option"
  size' :: u32
  startCluster :: u32

definition FS_MAX_NODES :: nat where
  "FS_MAX_NODES = 64"

record fs_state =
  g_fs :: "FATFS option"
  g_root :: "nat option"
  g_cwd :: "nat option"
  g_nextCluster :: u32
  g_mounted :: bool
  g_node_pool :: "FsNode list"
  g_node_used :: nat
  g_iter_dir :: "nat option"
  g_iter_next :: "nat option"

text \<open>A node after \<^verbatim>\<open>memset(n, 0, sizeof *n)\<close>, and the state the program starts in.\<close>

definition zero_node :: FsNode where
  "zero_node = \<lparr> name = [], attr = 0, parent = None, firstChild = None, nextSibling = None,
                 data = None, size' = 0, startCluster = 0 \<rparr>"

definition fs_initial :: fs_state where
  "fs_initial = \<lparr> g_fs = None, g_root = None, g_cwd = None, g_nextCluster = 2,
                  g_mounted = False, g_node_pool = replicate FS_MAX_NODES zero_node,
                  g_node_used = 0, g_iter_dir = None, g_iter_next = None \<rparr>"

text \<open>
  The functions that follow a sibling list do not return when the list is cyclic,
  and \<^verbatim>\<open>fs_ensure_dir\<close> dereferences \<^verbatim>\<open>NULL\<close> on a \<^verbatim>\<open>..\<close> after the pool ran out.
  Such a function returns an option: \<open>None\<close> when the C call gives no result.
\<close>

text \<open>\<^verbatim>\<open>fs_alloc_node\<close>: the first free slot below \<^verbatim>\<open>g_node_used\<close>, else a new slot.\<close>

function fs_alloc_scan :: "FsNode list \<Rightarrow> nat \<Rightarrow> nat \<Rightarrow> nat option" where
  "fs_alloc_scan pool i used =
     (if i < used
      then (if name (pool ! i) = [] \<and> attr (pool ! i) = 0 then Some i
            else fs_alloc_scan pool (i + 1) used)
      else None)"
  by pat_completeness auto
termination
  by (relation "measure (\<lambda>(pool, i, used). used - i)") auto

declare fs_alloc_scan.simps [simp del]

definition fs_alloc_node :: "fs_state \<Rightarrow> nat option \<times> fs_state" where
  "fs_alloc_node s =
     (case fs_alloc_scan (g_node_pool s) 0 (g_node_used s) of
        Some i \<Rightarrow> (Some i, s\<lparr> g_node_pool := (g_node_pool s)[i := zero_node] \<rparr>)
      | None \<Rightarrow>
          if g_node_used s \<ge> FS_MAX_NODES then (None, s)
          else (Some (g_node_used s),
                s\<lparr> g_node_pool := (g_node_pool s)[g_node_used s := zero_node],
                   g_node_used := g_node_used s + 1 \<rparr>))"

definition fs_new_node :: "string \<Rightarrow> u8 \<Rightarrow> fs_state \<Rightarrow> nat option \<times> fs_state" where
  "fs_new_node nm a s =
     (case fs_alloc_node s of
        (None, s1) \<Rightarrow> (None, s1)
      | (Some n, s1) \<Rightarrow>
          (Some n,
           s1\<lparr> g_node_pool := (g_node_pool s1)
                  [n := (g_node_pool s1 ! n)
                          \<lparr> name := take 99 nm, attr := a, parent := None, firstChild := None,
                            nextSibling := None, data := None, size' := 0,
                            startCluster := 2 \<rparr>] \<rparr>))"

text \<open>\<^verbatim>\<open>fs_add_child\<close>: the loop \<^verbatim>\<open>while (it->nextSibling) it = it->nextSibling\<close> first.\<close>

partial_function (option) last_sibling :: "FsNode list \<Rightarrow> nat \<Rightarrow> nat option" where
  "last_sibling pool it =
     (case nextSibling (pool ! it) of
        None \<Rightarrow> Some it
      | Some nx \<Rightarrow> last_sibling pool nx)"

definition fs_add_child :: "fs_state \<Rightarrow> nat option \<Rightarrow> nat option \<Rightarrow> fs_state option" where
  "fs_add_child s d child =
     (case (d, child) of
        (Some dn, Some c) \<Rightarrow>
          (let pool1 = (g_node_pool s)[c := (g_node_pool s ! c)\<lparr> parent := Some dn, nextSibling := None \<rparr>]
           in case firstChild (pool1 ! dn) of
                None \<Rightarrow> Some (s\<lparr> g_node_pool := pool1[dn := (pool1 ! dn)\<lparr> firstChild := Some c \<rparr>] \<rparr>)
              | Some f \<Rightarrow>
                  (case last_sibling pool1 f of
                     None \<Rightarrow> None
                   | Some it \<Rightarrow>
                       Some (s\<lparr> g_node_pool := pool1[it := (pool1 ! it)\<lparr> nextSibling := Some c \<rparr>] \<rparr>)))
      | _ \<Rightarrow> Some s)"

text \<open>
  \<^verbatim>\<open>strcasecmp(a, b) == 0\<close>: the two strings are equal after \<^verbatim>\<open>tolower\<close> on every
  character (the C locale: only the letters A to Z change).
\<close>

definition tolower_c :: "char \<Rightarrow> char" where
  "tolower_c c =
     (if 65 \<le> (of_char c :: nat) \<and> (of_char c :: nat) \<le> 90
      then char_of ((of_char c :: nat) + 32) else c)"

definition strcasecmp_eq :: "string \<Rightarrow> string \<Rightarrow> bool" where
  "strcasecmp_eq a b \<longleftrightarrow> map tolower_c a = map tolower_c b"

text \<open>\<^verbatim>\<open>fs_find_child\<close>: the loop over the child list is \<open>find_sibling\<close>.\<close>

partial_function (option) find_sibling :: "FsNode list \<Rightarrow> nat option \<Rightarrow> string \<Rightarrow> nat option option" where
  "find_sibling pool it nm =
     (case it of
        None \<Rightarrow> Some None
      | Some i \<Rightarrow>
          if strcasecmp_eq (name (pool ! i)) nm then Some (Some i)
          else find_sibling pool (nextSibling (pool ! i)) nm)"

definition fs_find_child :: "fs_state \<Rightarrow> nat option \<Rightarrow> string \<Rightarrow> nat option option" where
  "fs_find_child s d nm =
     (case d of
        None \<Rightarrow> Some None
      | Some dn \<Rightarrow>
          if attr (g_node_pool s ! dn) AND AM_DIR = 0 then Some None
          else find_sibling (g_node_pool s) (firstChild (g_node_pool s ! dn)) nm)"

text \<open>
  The segment the path loops of \<^verbatim>\<open>fs_resolve\<close> and \<^verbatim>\<open>fs_ensure_dir\<close> copy into
  \<^verbatim>\<open>seg[256]\<close>: the characters before the next \<^verbatim>\<open>/\<close>, at most 255 of them; and the step
  over a \<^verbatim>\<open>/\<close> that follows.
\<close>

definition path_seg :: "string \<Rightarrow> string" where
  "path_seg p = take 255 (takeWhile (\<lambda>c. c \<noteq> CHR ''/'') p)"

definition skip_slash :: "string \<Rightarrow> string" where
  "skip_slash p = (case p of [] \<Rightarrow> [] | c # cs \<Rightarrow> if c = CHR ''/'' then cs else p)"

lemma path_seg_empty: "p \<noteq> [] \<Longrightarrow> path_seg p = [] \<Longrightarrow> hd p = CHR ''/''"
  by (cases p) (auto simp: path_seg_def split: if_splits)

lemma length_skip_slash: "length (skip_slash q) \<le> length q"
  by (cases q) (auto simp: skip_slash_def)

lemma path_seg_progress0:
  "p \<noteq> [] \<Longrightarrow> path_seg p = [] \<Longrightarrow> length (skip_slash p) < length p"
  using path_seg_empty [of p] by (cases p) (auto simp: skip_slash_def)

lemma path_seg_progress:
  "p \<noteq> [] \<Longrightarrow> length (skip_slash (drop (length (path_seg p)) p)) < length p"
proof (cases "path_seg p = []")
  case True
  assume "p \<noteq> []"
  with True path_seg_progress0 [of p] show ?thesis by simp
next
  case False
  assume "p \<noteq> []"
  then have "0 < length p" by simp
  moreover from False have "0 < length (path_seg p)" by simp
  ultimately have "length (drop (length (path_seg p)) p) < length p" by simp
  with length_skip_slash [of "drop (length (path_seg p)) p"] show ?thesis by simp
qed

text \<open>
  \<^verbatim>\<open>fs_resolve\<close>. \<open>fs_walk\<close> is its \<^verbatim>\<open>while (*p)\<close> loop. The flag \<^verbatim>\<open>is_dir_slash_end\<close> is
  left out: the function only writes it and no caller reads it.
\<close>

function fs_walk :: "fs_state \<Rightarrow> nat \<Rightarrow> string \<Rightarrow> nat option option" where
  "fs_walk s cur p =
     (if p = [] then Some (Some cur)
      else
        let seg = path_seg p;
            rest = skip_slash (drop (length seg) p)
        in if seg = [] then fs_walk s cur rest
           else if seg = ''.'' then fs_walk s cur rest
           else if seg = ''..'' then
             (case parent (g_node_pool s ! cur) of
                Some q \<Rightarrow> fs_walk s q rest
              | None \<Rightarrow> fs_walk s cur rest)
           else
             (case fs_find_child s (Some cur) seg of
                None \<Rightarrow> None
              | Some None \<Rightarrow> Some None
              | Some (Some nxt) \<Rightarrow> fs_walk s nxt rest))"
  by pat_completeness auto
termination
  by (relation "measure (\<lambda>(s, cur, p). length p)")
     (auto simp: path_seg_progress dest!: sym [of "[]" "path_seg _"] path_seg_progress0)

declare fs_walk.simps [simp del]

definition path_start :: "fs_state \<Rightarrow> string \<Rightarrow> nat option" where
  "path_start s path =
     (if hd path = CHR ''/'' then g_root s
      else (case g_cwd s of Some c \<Rightarrow> Some c | None \<Rightarrow> g_root s))"

definition fs_resolve :: "fs_state \<Rightarrow> string \<Rightarrow> nat option option" where
  "fs_resolve s path =
     (case g_root s of
        None \<Rightarrow> Some None
      | Some r \<Rightarrow>
          if path = [] then Some (case g_cwd s of Some c \<Rightarrow> Some c | None \<Rightarrow> Some r)
          else (case path_start s path of
                  None \<Rightarrow> None
                | Some cur \<Rightarrow> fs_walk s cur (skip_slash path)))"

text \<open>
  \<^verbatim>\<open>fs_ensure_dir\<close>: the same walk, creating the directories that are missing. When
  the pool is full \<^verbatim>\<open>fs_new_node\<close> gives \<^verbatim>\<open>NULL\<close>, which becomes the current node; a
  \<^verbatim>\<open>..\<close> after that dereferences it.
\<close>

function ensure_walk :: "fs_state \<Rightarrow> nat option \<Rightarrow> string \<Rightarrow> (nat option \<times> fs_state) option" where
  "ensure_walk s cur p =
     (if p = [] then Some (cur, s)
      else
        let seg = path_seg p;
            rest = skip_slash (drop (length seg) p)
        in if seg = [] then ensure_walk s cur rest
           else if seg = ''.'' then ensure_walk s cur rest
           else if seg = ''..'' then
             (case cur of
                None \<Rightarrow> None
              | Some c \<Rightarrow>
                  (case parent (g_node_pool s ! c) of
                     Some q \<Rightarrow> ensure_walk s (Some q) rest
                   | None \<Rightarrow> ensure_walk s cur rest))
           else
             (case fs_find_child s cur seg of
                None \<Rightarrow> None
              | Some (Some nxt) \<Rightarrow> ensure_walk s (Some nxt) rest
              | Some None \<Rightarrow>
                  (case fs_new_node seg AM_DIR s of (nxt, s1) \<Rightarrow>
                     (case fs_add_child s1 cur nxt of
                        None \<Rightarrow> None
                      | Some s2 \<Rightarrow> ensure_walk s2 nxt rest))))"
  by pat_completeness auto
termination
  by (relation "measure (\<lambda>(s, cur, p). length p)")
     (auto simp: path_seg_progress dest!: sym [of "[]" "path_seg _"] path_seg_progress0)

declare ensure_walk.simps [simp del]

definition fs_ensure_dir :: "fs_state \<Rightarrow> string \<Rightarrow> (nat option \<times> fs_state) option" where
  "fs_ensure_dir s path =
     (case g_root s of
        None \<Rightarrow> Some (None, s)
      | Some r \<Rightarrow>
          if path = [] then Some (Some r, s)
          else ensure_walk s (path_start s path) (skip_slash path))"

text \<open>
  \<^verbatim>\<open>fs_assign_clusters\<close>, in 32-bit arithmetic. It reads \<^verbatim>\<open>g_fs->csize\<close> and divides by
  the cluster size: with \<^verbatim>\<open>g_fs\<close> \<^verbatim>\<open>NULL\<close> or a zero \<^verbatim>\<open>csize\<close> the C call has no result.
\<close>

definition fs_assign_clusters :: "fs_state \<Rightarrow> nat option \<Rightarrow> fs_state option" where
  "fs_assign_clusters s f =
     (case f of
        None \<Rightarrow> Some s
      | Some n \<Rightarrow>
          if attr (g_node_pool s ! n) AND AM_DIR \<noteq> 0 then Some s
          else (case g_fs s of
                  None \<Rightarrow> None
                | Some fs \<Rightarrow>
                    let clusterSizeBytes = (ucast (csize fs) :: u32) * 512
                    in if clusterSizeBytes = 0 then None
                       else
                         let ncl0 = (size' (g_node_pool s ! n) + clusterSizeBytes - 1) div clusterSizeBytes;
                             ncl = (if ncl0 = 0 then 1 else ncl0)
                         in Some (s\<lparr> g_node_pool := (g_node_pool s)
                                        [n := (g_node_pool s ! n)\<lparr> startCluster := g_nextCluster s \<rparr>],
                                     g_nextCluster := g_nextCluster s + ncl \<rparr>)))"

text \<open>
  \<^verbatim>\<open>fs_populate_default\<close>. \<open>set_size\<close> is the assignment \<^verbatim>\<open>f->size = ...\<close> through a pointer
  the code has tested; \<open>populate_file\<close> is one round of the loop over \<^verbatim>\<open>samples\<close> (and
  the body of the two guarded blocks under \<^verbatim>\<open>GAMES\<close>), \<open>None\<close> inside for the \<^verbatim>\<open>break\<close>.
\<close>

definition set_size :: "fs_state \<Rightarrow> nat \<Rightarrow> u32 \<Rightarrow> fs_state" where
  "set_size s n sz = s\<lparr> g_node_pool := (g_node_pool s)[n := (g_node_pool s ! n)\<lparr> size' := sz \<rparr>] \<rparr>"

definition populate_file ::
    "fs_state \<Rightarrow> nat option \<Rightarrow> string \<Rightarrow> u32 \<Rightarrow> (bool \<times> fs_state) option" where
  "populate_file s d nm sz =
     (case fs_new_node nm AM_ARC s of
        (None, s1) \<Rightarrow> Some (False, s1)
      | (Some f, s1) \<Rightarrow>
          do {
            s2 \<leftarrow> fs_assign_clusters (set_size s1 f sz) (Some f);
            s3 \<leftarrow> fs_add_child s2 d (Some f);
            Some (True, s3)
          })"

fun populate_samples :: "fs_state \<Rightarrow> (string \<times> u32) list \<Rightarrow> fs_state option" where
  "populate_samples s [] = Some s"
| "populate_samples s ((nm, sz) # rest) =
     (case populate_file s (g_root s) nm sz of
        None \<Rightarrow> None
      | Some (False, s1) \<Rightarrow> Some s1
      | Some (True, s1) \<Rightarrow> populate_samples s1 rest)"

definition samples :: "(string \<times> u32) list" where
  "samples = [(''ALTT.gba'', 8 * 1024 * 1024), (''Metroid.gba'', 16 * 1024 * 1024),
              (''Sample.gb'', 256 * 1024), (''Readme.txt'', 2048)]"

definition fs_populate_default :: "fs_state \<Rightarrow> fs_state option" where
  "fs_populate_default s0 =
     (case fs_new_node [] AM_DIR s0 of (root, sa) \<Rightarrow>
      let s1 = sa\<lparr> g_root := root, g_cwd := root \<rparr> in
      case fs_new_node ''SYSTEM'' AM_DIR s1 of (sys, s2) \<Rightarrow>
      do {
        s3 \<leftarrow> fs_add_child s2 (g_root s2) sys;
        (case fs_new_node ''PATCH'' AM_DIR s3 of (patch, s4) \<Rightarrow>
         do {
           s5 \<leftarrow> fs_add_child s4 sys patch;
           (case fs_new_node ''PLUG'' AM_DIR s5 of (plug, s6) \<Rightarrow>
            do {
              s7 \<leftarrow> fs_add_child s6 sys plug;
              (case fs_new_node ''RECENT.TXT'' AM_ARC s7 of
                 (None, s8) \<Rightarrow> None
               | (Some recent, s8) \<Rightarrow>
                   do {
                     s9 \<leftarrow> fs_assign_clusters
                            (s8\<lparr> g_node_pool := (g_node_pool s8)
                                   [recent := (g_node_pool s8 ! recent)\<lparr> data := None, size' := 0 \<rparr>] \<rparr>)
                            (Some recent);
                     s10 \<leftarrow> fs_add_child s9 sys (Some recent);
                     s11 \<leftarrow> populate_samples s10 samples;
                     (case fs_new_node ''GAMES'' AM_DIR s11 of
                        (None, s12) \<Rightarrow> Some s12
                      | (Some games, s12) \<Rightarrow>
                          do {
                            s13 \<leftarrow> fs_add_child s12 (g_root s12) (Some games);
                            (b1, s14) \<leftarrow> populate_file s13 (Some games) ''Pokemon.gba'' (32 * 1024 * 1024);
                            (b2, s15) \<leftarrow> populate_file s14 (Some games) ''MarioKart.gba'' (16 * 1024 * 1024);
                            Some s15
                          })
                   })
            })
         })
      })"

text \<open>\<^verbatim>\<open>f_mount\<close>; \<open>fs\<close> tells whether the caller gives a \<^verbatim>\<open>FATFS\<close> object or \<^verbatim>\<open>NULL\<close>.\<close>

definition f_mount :: "fs_state \<Rightarrow> bool \<Rightarrow> (FRESULT \<times> fs_state) option" where
  "f_mount s fs =
     (if \<not> fs then Some (FR_OK, s\<lparr> g_mounted := False, g_fs := None \<rparr>)
      else
        do {
          s' \<leftarrow> fs_populate_default
                  (s\<lparr> g_fs := Some \<lparr> fs_type = FS_FAT16, csize = 4, fs_id = 0x1234,
                                    n_fatent = 0x10000, database = 2048 \<rparr>,
                      g_mounted := True, g_root := None, g_cwd := None, g_nextCluster := 2,
                      g_node_used := 0, g_iter_dir := None, g_iter_next := None \<rparr>);
          Some (FR_OK, s')
        })"

subsection \<open>Files\<close>

definition zero_FIL :: FIL where
  "zero_FIL = \<lparr> obj = \<lparr> obj_fs = False, obj_id = 0, obj_attr = 0, sclust = 0, objsize = 0 \<rparr>,
                flag = 0, err = 0, fptr = 0, clust = 0, sect = 0, dir_ptr = None \<rparr>"

text \<open>\<^verbatim>\<open>strrchr(path, '/')\<close>: the index of the last \<^verbatim>\<open>/\<close>, if there is one.\<close>

definition strrchr_slash :: "string \<Rightarrow> nat option" where
  "strrchr_slash path =
     (case filter (\<lambda>i. path ! i = CHR ''/'') (rev [0..<length path]) of
        [] \<Rightarrow> None
      | i # _ \<Rightarrow> Some i)"

text \<open>The end of \<^verbatim>\<open>f_open\<close>, from the test of the node found or made.\<close>

definition open_node :: "fs_state \<Rightarrow> nat \<Rightarrow> u8 \<Rightarrow> (FRESULT \<times> FIL option \<times> fs_state) option" where
  "open_node s node mode =
     (if attr (g_node_pool s ! node) AND AM_DIR \<noteq> 0 then Some (FR_INVALID_OBJECT, Some zero_FIL, s)
      else (case g_fs s of
              None \<Rightarrow> None
            | Some fs \<Rightarrow>
                Some (FR_OK,
                      Some \<lparr> obj = \<lparr> obj_fs = True, obj_id = fs_id fs,
                                     obj_attr = attr (g_node_pool s ! node),
                                     sclust = startCluster (g_node_pool s ! node),
                                     objsize = size' (g_node_pool s ! node) \<rparr>,
                             flag = mode, err = 0, fptr = 0,
                             clust = startCluster (g_node_pool s ! node), sect = 0,
                             dir_ptr = Some node \<rparr>,
                      s)))"

definition f_open :: "fs_state \<Rightarrow> FIL option \<Rightarrow> string \<Rightarrow> u8 \<Rightarrow> (FRESULT \<times> FIL option \<times> fs_state) option" where
  "f_open s fp path mode =
     (if \<not> g_mounted s \<or> fp = None then Some (FR_NOT_READY, fp, s)
      else
        (case fs_resolve s path of
           None \<Rightarrow> None
         | Some (Some node) \<Rightarrow> open_node s node mode
         | Some None \<Rightarrow>
             if mode AND (FA_CREATE_ALWAYS OR FA_OPEN_ALWAYS OR FA_CREATE_NEW) = 0
             then Some (FR_NO_FILE, Some zero_FIL, s)
             else
               let lastSlash = strrchr_slash path;
                   nm = (case lastSlash of Some k \<Rightarrow> take 99 (drop (k + 1) path) | None \<Rightarrow> take 99 path);
                   parentPath = (case lastSlash of Some k \<Rightarrow> take (min k 511) path | None \<Rightarrow> ''.'')
               in (case fs_ensure_dir s parentPath of
                     None \<Rightarrow> None
                   | Some (None, s1) \<Rightarrow> Some (FR_NO_PATH, Some zero_FIL, s1)
                   | Some (Some par, s1) \<Rightarrow>
                       if attr (g_node_pool s1 ! par) AND AM_DIR = 0
                       then Some (FR_NO_PATH, Some zero_FIL, s1)
                       else
                         (case (if mode AND FA_CREATE_NEW \<noteq> 0 then fs_find_child s1 (Some par) nm
                                else Some None) of
                            None \<Rightarrow> None
                          | Some (Some _) \<Rightarrow> Some (FR_EXIST, Some zero_FIL, s1)
                          | Some None \<Rightarrow>
                              (case fs_new_node nm AM_ARC s1 of
                                 (None, s2) \<Rightarrow> Some (FR_INT_ERR, Some zero_FIL, s2)
                               | (Some node, s2) \<Rightarrow>
                                   do {
                                     s3 \<leftarrow> fs_assign_clusters
                                            (s2\<lparr> g_node_pool := (g_node_pool s2)
                                                   [node := (g_node_pool s2 ! node)\<lparr> size' := 0, data := None \<rparr>] \<rparr>)
                                            (Some node);
                                     s4 \<leftarrow> fs_add_child s3 (Some par) (Some node);
                                     open_node s4 node mode
                                   })))))"

text \<open>
  A content buffer is a heap block, held as the list of its bytes; its length is the
  size the block was allocated with. A read that leaves the block yields bytes that
  are not in the file system: the call has no result. A write that leaves the block
  changes the bytes inside it, and the model counts the bytes that fall outside.
\<close>

text \<open>
  \<^verbatim>\<open>f_read\<close>. \<open>buff\<close> is the destination, which in C holds \<open>btr\<close> bytes, and \<open>br\<close> the cell
  \<^verbatim>\<open>*br\<close> when the pointer is given. The function follows no list and changes no node:
  it returns the result code, the file object, the buffer and the cell.
\<close>

definition f_read ::
    "fs_state \<Rightarrow> FIL option \<Rightarrow> u8 list option \<Rightarrow> u32 \<Rightarrow> u32 option
       \<Rightarrow> (FRESULT \<times> FIL option \<times> u8 list option \<times> u32 option) option" where
  "f_read s fp buff btr br =
     (let br0 = map_option (\<lambda>_. 0) br in
      case (fp, buff) of
        (Some f, Some b) \<Rightarrow>
          if \<not> g_mounted s then Some (FR_INVALID_PARAMETER, fp, buff, br0)
          else (case dir_ptr f of
                  None \<Rightarrow> Some (FR_INVALID_OBJECT, fp, buff, br0)
                | Some n \<Rightarrow>
                    let node = g_node_pool s ! n in
                    if fptr f \<ge> size' node then Some (FR_OK, fp, buff, br0)
                    else
                      let remain = size' node - fptr f;
                          tocopy = (if btr > remain then remain else btr)
                      in (case data node of
                            Some d \<Rightarrow>
                              if tocopy \<noteq> 0 \<and> length d < unat (fptr f) + unat tocopy then None
                              else Some (FR_OK, Some (f\<lparr> fptr := fptr f + tocopy \<rparr>),
                                         Some (memcpy b 0 d (unat (fptr f)) (unat tocopy)),
                                         map_option (\<lambda>_. tocopy) br)
                          | None \<Rightarrow>
                              Some (FR_OK, Some (f\<lparr> fptr := fptr f + tocopy \<rparr>),
                                    Some (replicate (unat tocopy) 0 @ drop (unat tocopy) b),
                                    map_option (\<lambda>_. tocopy) br)))
      | _ \<Rightarrow> Some (FR_INVALID_PARAMETER, fp, buff, br0))"

text \<open>
  \<^verbatim>\<open>memcpy(blk + off, src, n)\<close> and \<^verbatim>\<open>memset(blk + off, 0, n)\<close> on a heap block: the bytes of
  the block afterwards, and the number of bytes of the range that lie past its end.
\<close>

definition store_bytes :: "u8 list \<Rightarrow> nat \<Rightarrow> u8 list \<Rightarrow> u8 list" where
  "store_bytes blk off src =
     map (\<lambda>i. if off \<le> i \<and> i < off + length src then src ! (i - off) else blk ! i)
         [0..<length blk]"

definition past_end :: "u8 list \<Rightarrow> nat \<Rightarrow> nat \<Rightarrow> nat" where
  "past_end blk off n = off + n - max off (length blk)"

text \<open>
  \<^verbatim>\<open>fs_file_ensure_capacity\<close>. \<open>alloc_ok\<close> says whether \<^verbatim>\<open>malloc\<close> or \<^verbatim>\<open>realloc\<close> gives a
  block, and \<open>junk\<close> is the content of the bytes that they leave uninitialised. The
  result is the return value, the state, and the number of bytes that \<^verbatim>\<open>memset\<close> wrote
  past the end of the block.
\<close>

definition fs_file_ensure_capacity ::
    "bool \<Rightarrow> (nat \<Rightarrow> u8) \<Rightarrow> fs_state \<Rightarrow> nat option \<Rightarrow> u32 \<Rightarrow> bool \<times> fs_state \<times> nat" where
  "fs_file_ensure_capacity alloc_ok junk s node needed =
     (case node of
        None \<Rightarrow> (False, s, 0)
      | Some n \<Rightarrow>
          let nd = g_node_pool s ! n in
          (case data nd of
             None \<Rightarrow>
               if \<not> alloc_ok then (False, s, 0)
               else
                 let blk = map junk [0..<unat needed];
                     blk' = (if size' nd \<noteq> 0
                             then store_bytes blk 0 (replicate (unat (size' nd)) 0) else blk)
                 in (True,
                     s\<lparr> g_node_pool := (g_node_pool s)[n := nd\<lparr> data := Some blk' \<rparr>] \<rparr>,
                     past_end blk 0 (unat (size' nd)))
           | Some d \<Rightarrow>
               if needed \<le> size' nd then (True, s, 0)
               else if \<not> alloc_ok then (False, s, 0)
               else
                 let blk = take (unat needed) d @ map junk [length d..<unat needed];
                     blk' = store_bytes blk (unat (size' nd))
                              (replicate (unat (needed - size' nd)) 0)
                 in (True,
                     s\<lparr> g_node_pool := (g_node_pool s)[n := nd\<lparr> data := Some blk' \<rparr>] \<rparr>,
                     past_end blk (unat (size' nd)) (unat (needed - size' nd)))))"

text \<open>
  \<^verbatim>\<open>f_write\<close>. \<open>buff\<close> is the source, which in C holds \<open>btw\<close> bytes (with fewer the call
  reads past it and has no result), and \<open>bw\<close> the cell \<^verbatim>\<open>*bw\<close>. The result is the result
  code, the file object, the state, the cell, and the number of bytes written past the
  end of the content block by \<^verbatim>\<open>fs_file_ensure_capacity\<close> and by the \<^verbatim>\<open>memcpy\<close>.
\<close>

definition f_write ::
    "bool \<Rightarrow> (nat \<Rightarrow> u8) \<Rightarrow> fs_state \<Rightarrow> FIL option \<Rightarrow> u8 list option \<Rightarrow> u32 \<Rightarrow> u32 option
       \<Rightarrow> (FRESULT \<times> FIL option \<times> fs_state \<times> u32 option \<times> nat) option" where
  "f_write alloc_ok junk s fp buff btw bw =
     (let bw0 = map_option (\<lambda>_. 0) bw in
      case (fp, buff) of
        (Some f, Some b) \<Rightarrow>
          if \<not> g_mounted s then Some (FR_INVALID_PARAMETER, fp, s, bw0, 0)
          else if flag f AND FA_WRITE = 0 then Some (FR_DENIED, fp, s, bw0, 0)
          else (case dir_ptr f of
                  None \<Rightarrow> Some (FR_INVALID_OBJECT, fp, s, bw0, 0)
                | Some n \<Rightarrow>
                    let endpos = fptr f + btw in
                    (case fs_file_ensure_capacity alloc_ok junk s (Some n) endpos of
                       (False, s1, over) \<Rightarrow> Some (FR_INT_ERR, fp, s1, bw0, over)
                     | (True, s1, over) \<Rightarrow>
                         (case data (g_node_pool s1 ! n) of
                            None \<Rightarrow> None
                          | Some blk \<Rightarrow>
                              if length b < unat btw then None
                              else
                                let nd = g_node_pool s1 ! n;
                                    blk' = store_bytes blk (unat (fptr f)) (take (unat btw) b);
                                    grew = (endpos > size' nd);
                                    nd' = nd\<lparr> data := Some blk',
                                             size' := (if grew then endpos else size' nd) \<rparr>;
                                    f' = f\<lparr> fptr := endpos,
                                           obj := (if grew then (obj f)\<lparr> objsize := endpos \<rparr>
                                                   else obj f) \<rparr>
                                in Some (FR_OK, Some f',
                                         s1\<lparr> g_node_pool := (g_node_pool s1)[n := nd'] \<rparr>,
                                         map_option (\<lambda>_. btw) bw,
                                         over + past_end blk (unat (fptr f)) (unat btw)))))
      | _ \<Rightarrow> Some (FR_INVALID_PARAMETER, fp, s, bw0, 0))"

subsection \<open>Directories\<close>


text \<open>\<^verbatim>\<open>f_readdir\<close>; \<open>fname_size\<close> is \<^verbatim>\<open>sizeof(fno->fname)\<close>.\<close>

definition f_readdir ::
    "nat \<Rightarrow> fs_state \<Rightarrow> DIR option \<Rightarrow> FILINFO option \<Rightarrow> FRESULT \<times> fs_state \<times> FILINFO option" where
  "f_readdir fname_size s dp fno =
     (case dp of
        None \<Rightarrow> (FR_INVALID_PARAMETER, s, fno)
      | Some d \<Rightarrow>
          if \<not> g_mounted s then (FR_INVALID_PARAMETER, s, fno)
          else if dir d = 0 then (FR_OK, s, map_option (\<lambda>i. i\<lparr> fname := [] \<rparr>) fno)
          else (case fno of
                  None \<Rightarrow>
                    (FR_OK,
                     s\<lparr> g_iter_next := (case g_iter_dir s of
                                           Some it \<Rightarrow> firstChild (g_node_pool s ! it)
                                         | None \<Rightarrow> None) \<rparr>,
                     None)
                | Some i \<Rightarrow>
                    (case g_iter_next s of
                       None \<Rightarrow> (FR_OK, s, Some (i\<lparr> fname := [] \<rparr>))
                     | Some n \<Rightarrow>
                         (FR_OK,
                          s\<lparr> g_iter_next := nextSibling (g_node_pool s ! n) \<rparr>,
                          Some (i\<lparr> fname := take (fname_size - 1) (name (g_node_pool s ! n)),
                                   fattrib := attr (g_node_pool s ! n),
                                   fsize := (if attr (g_node_pool s ! n) AND AM_DIR \<noteq> 0 then 0
                                             else size' (g_node_pool s ! n)) \<rparr>)))))"

definition f_closedir :: "fs_state \<Rightarrow> DIR option \<Rightarrow> FRESULT \<times> fs_state \<times> DIR option" where
  "f_closedir s dp =
     (case dp of
        None \<Rightarrow> (FR_INVALID_PARAMETER, s, dp)
      | Some d \<Rightarrow> (FR_OK, s\<lparr> g_iter_dir := None, g_iter_next := None \<rparr>, Some (d\<lparr> dir := 0 \<rparr>)))"




subsection \<open>The cluster chain\<close>

text \<open>\<^verbatim>\<open>Get_NextCluster\<close>; \<open>obj\<close> is \<open>None\<close> for a \<^verbatim>\<open>NULL\<close> pointer.\<close>

definition Get_NextCluster :: "fs_state \<Rightarrow> FFOBJID option \<Rightarrow> u32 \<Rightarrow> u32" where
  "Get_NextCluster s ob clst =
     (case (ob, g_fs s) of
        (Some o', Some fs) \<Rightarrow>
          let csb0 = (ucast (csize fs) :: u32) * 512;
              clusterSizeBytes = (if csb0 = 0 then 2048 else csb0);
              ncl0 = (objsize o' + clusterSizeBytes - 1) div clusterSizeBytes;
              ncl = (if ncl0 = 0 then 1 else ncl0);
              base = (if sclust o' \<noteq> 0 then sclust o' else 2)
          in if clst < base then base
             else
               let idx = clst - base
               in if idx + 1 \<ge> ncl then 0xFFFF else base + idx + 1
      | _ \<Rightarrow> 0xFFFF)"

subsection \<open>The mounted file system\<close>

text \<open>
  The loops over sibling lists are evaluated by their recursion equations. \<open>mounted\<close>
  is the state \<^verbatim>\<open>f_mount\<close> builds from the initial one: the default layout in the first
  twelve slots of the pool.
\<close>

declare last_sibling.simps [code]
declare find_sibling.simps [code]

definition file_node :: "string \<Rightarrow> nat \<Rightarrow> nat option \<Rightarrow> u32 \<Rightarrow> u32 \<Rightarrow> FsNode" where
  "file_node nm par sib sz cl =
     \<lparr> name = nm, attr = AM_ARC, parent = Some par, firstChild = None, nextSibling = sib,
       data = None, size' = sz, startCluster = cl \<rparr>"

definition dir_node :: "string \<Rightarrow> nat option \<Rightarrow> nat option \<Rightarrow> nat option \<Rightarrow> FsNode" where
  "dir_node nm par child sib =
     \<lparr> name = nm, attr = AM_DIR, parent = par, firstChild = child, nextSibling = sib,
       data = None, size' = 0, startCluster = 2 \<rparr>"

definition mounted :: fs_state where
  "mounted =
     \<lparr> g_fs = Some \<lparr> fs_type = FS_FAT16, csize = 4, fs_id = 0x1234, n_fatent = 0x10000,
                      database = 2048 \<rparr>,
       g_root = Some 0, g_cwd = Some 0, g_nextCluster = 36996, g_mounted = True,
       g_node_pool =
         [dir_node [] None (Some 1) None,
          dir_node ''SYSTEM'' (Some 0) (Some 2) (Some 5),
          dir_node ''PATCH'' (Some 1) None (Some 3),
          dir_node ''PLUG'' (Some 1) None (Some 4),
          file_node ''RECENT.TXT'' 1 None 0 2,
          file_node ''ALTT.gba'' 0 (Some 6) 8388608 3,
          file_node ''Metroid.gba'' 0 (Some 7) 16777216 4099,
          file_node ''Sample.gb'' 0 (Some 8) 262144 12291,
          file_node ''Readme.txt'' 0 (Some 9) 2048 12419,
          dir_node ''GAMES'' (Some 0) (Some 10) None,
          file_node ''Pokemon.gba'' 9 (Some 11) 33554432 12420,
          file_node ''MarioKart.gba'' 9 None 16777216 28804]
         @ replicate 52 zero_node,
       g_node_used = 12, g_iter_dir = None, g_iter_next = None \<rparr>"

text \<open>
  A write into a file of the default layout: the handle that \<^verbatim>\<open>f_open\<close> gives for
  \<^verbatim>\<open>/Readme.txt\<close> (2048 bytes, no content buffer yet) opened for reading and writing,
  ten bytes to write, the bytes of a fresh heap block, and the state that \<^verbatim>\<open>f_write\<close>
  of the ten bytes leaves.
\<close>

definition readme_handle :: FIL where
  "readme_handle =
     \<lparr> obj = \<lparr> obj_fs = True, obj_id = 0x1234, obj_attr = AM_ARC, sclust = 12419,
                objsize = 2048 \<rparr>,
       flag = FA_READ OR FA_WRITE, err = 0, fptr = 0, clust = 12419, sect = 0,
       dir_ptr = Some 8 \<rparr>"

definition src10 :: "u8 list" where
  "src10 = [1, 2, 3, 4, 5, 6, 7, 8, 9, 10]"

definition junk :: "nat \<Rightarrow> u8" where
  "junk i = 0xAA"

definition readme_written :: fs_state where
  "readme_written =
     mounted\<lparr> g_node_pool :=
                (g_node_pool mounted)[8 := (g_node_pool mounted ! 8)\<lparr> data := Some src10 \<rparr>] \<rparr>"

subsection \<open>Well-formed node trees\<close>

text \<open>
  The child list of a directory as a list of slots: following \<^verbatim>\<open>nextSibling\<close> from \<open>it\<close>
  visits the slots \<open>cs\<close> in this order and then arrives at \<open>e\<close> (\<open>None\<close> at the end of
  the list).
\<close>

primrec sib_list :: "FsNode list \<Rightarrow> nat option \<Rightarrow> nat list \<Rightarrow> nat option \<Rightarrow> bool" where
  "sib_list pool it [] e \<longleftrightarrow> it = e"
| "sib_list pool it (c # cs) e \<longleftrightarrow> it = Some c \<and> sib_list pool (nextSibling (pool ! c)) cs e"







section \<open>Properties of the fake SD driver\<close>

lemma unat_ucast_u16_u32: "unat (ucast (c::u16) :: u32) = unat c"
  by (simp add: unsigned_ucast_eq take_bit_nat_eq_self unsigned_less[THEN less_le_trans])

lemma unat_ucast_u32_u16: "unat (ucast (c::u32) :: u16) = unat c mod 65536"
  by (simp add: unsigned_ucast_eq take_bit_eq_mod)

lemma range_check_nat:
  fixes address sc :: u32 and count :: u16
  shows "(sc \<le> address \<or> sc - address < ucast count) \<longleftrightarrow> unat sc < unat address + unat count \<or> sc \<le> address"
proof (cases "sc \<le> address")
  case True
  then show ?thesis by simp
next
  case False
  then have "address \<le> sc" by simp
  then have "unat (sc - address) = unat sc - unat address" by (rule unat_sub)
  with False show ?thesis
    by (auto simp: word_le_nat_alt word_less_nat_alt unat_ucast_u16_u32)
qed

lemma range_ok_nat:
  fixes address sc :: u32 and count :: u16
  shows "(\<not> sc \<le> address \<and> \<not> sc - address < ucast count) \<longleftrightarrow> unat address + unat count \<le> unat sc \<and> unat address < unat sc"
  using range_check_nat[of sc address count]
  by (auto simp: word_le_nat_alt word_less_nat_alt)

lemma ensure_ready: "g_sd_ready s \<Longrightarrow> ensure_sd_open bin a s = (True, s)"
  by (simp add: ensure_sd_open_def)

text \<open>
  Claim C10. A call of \<^verbatim>\<open>Read_SD_sectors\<close> or \<^verbatim>\<open>Write_SD_sectors\<close> with a null data
  buffer returns \<^verbatim>\<open>RES_ERROR\<close>, whatever the start sector and the count are: the test
  for the buffer comes before the tests of the count and of the range. The state it
  leaves is the one \<^verbatim>\<open>ensure_sd_open\<close> leaves, and there is no buffer to change.
\<close>

theorem null_buffer_is_error:
  "Read_SD_sectors bin a s address count None = (RES_ERROR, snd (ensure_sd_open bin a s), None)
   \<and> Write_SD_sectors bin a s address count None = (RES_ERROR, snd (ensure_sd_open bin a s))"
  by (simp add: Read_SD_sectors_def Write_SD_sectors_def split: prod.splits)

text \<open>
  Claim C4. Once the store is open and the caller gives a buffer, a read or a write
  with a zero count, with a start sector at or beyond the sector count, or with
  \<open>address + count\<close> beyond the sector count, returns \<^verbatim>\<open>RES_PARERR\<close> (the one code the
  driver has for a bad argument and for a range outside the store). The destination
  buffer of the read comes back as it was, and the state is the one
  \<^verbatim>\<open>ensure_sd_open\<close> left: nothing is copied into the store.
\<close>

theorem invalid_range_rejected:
  assumes "ensure_sd_open bin a s = (True, s1)"
      and "count = 0 \<or> g_sector_count s1 \<le> address \<or> unat (g_sector_count s1) < unat address + unat count"
  shows "Read_SD_sectors bin a s address count (Some dst) = (RES_PARERR, s1, Some dst)
       \<and> Write_SD_sectors bin a s address count (Some src) = (RES_PARERR, s1)"
  using assms range_check_nat[of "g_sector_count s1" address count]
  by (auto simp add: Read_SD_sectors_def Write_SD_sectors_def)


theorem invalid_range_rejected_witness:
  "Read_SD_sectors (replicate 1024 0) True sd_initial 1 2 (Some [1, 2, 3])
     = (RES_PARERR, snd (ensure_sd_open (replicate 1024 0) True sd_initial), Some [1, 2, 3])
   \<and> Write_SD_sectors (replicate 1024 0) True sd_initial 1 2 (Some [4, 5])
     = (RES_PARERR, snd (ensure_sd_open (replicate 1024 0) True sd_initial))"
proof -
  let ?s1 = "snd (ensure_sd_open (replicate 1024 0) True sd_initial)"
  have e: "ensure_sd_open (replicate 1024 0) True sd_initial = (True, ?s1)"
    by (simp add: ensure_sd_open_def sd_initial_def Let_def)
  have c: "g_sector_count ?s1 = 2"
    by (simp add: ensure_sd_open_def sd_initial_def Let_def)
  have r: "(2::u16) = 0 \<or> g_sector_count ?s1 \<le> 1 \<or> unat (g_sector_count ?s1) < unat (1::u32) + unat (2::u16)"
    by (simp add: c)
  show ?thesis
    using invalid_range_rejected [OF e r] by simp
qed

theorem null_buffer_is_error_witness:
  "Read_SD_sectors (replicate 1024 0) True sd_initial 7 1 None
     = (RES_ERROR, snd (ensure_sd_open (replicate 1024 0) True sd_initial), None)
   \<and> Write_SD_sectors (replicate 1024 0) True sd_initial 7 1 None
     = (RES_ERROR, snd (ensure_sd_open (replicate 1024 0) True sd_initial))"
  using null_buffer_is_error [of "replicate 1024 0" True sd_initial 7 1] by simp

subsection \<open>The overlay table\<close>


lemma slot_word: "j < MAX_OVERLAY_SECTORS \<Longrightarrow> (of_nat j :: u16) \<noteq> 0xFFFF \<and> unat (of_nat j :: u16) = j"
proof -
  assume a: "j < MAX_OVERLAY_SECTORS"
  then have "unat (of_nat j :: u16) = j"
    by (simp add: unat_of_nat MAX_OVERLAY_SECTORS_def)
  moreover from this a have "(of_nat j :: u16) \<noteq> 0xFFFF"
    by (auto simp: MAX_OVERLAY_SECTORS_def)
  ultimately show ?thesis by simp
qed

lemma overlay_find_from_none:
  "(\<forall>j. i \<le> j \<and> j < MAX_OVERLAY_SECTORS \<longrightarrow> ids ! j \<noteq> ucast sec)
     \<Longrightarrow> overlay_find_from ids sec i = 0xFFFF"
proof (induction ids sec i rule: overlay_find_from.induct)
  case (1 ids sector i)
  show ?case
  proof (cases "i < MAX_OVERLAY_SECTORS")
    case True
    with "1.prems" have ne: "ids ! i \<noteq> ucast sector" by simp
    have "overlay_find_from ids sector (i + 1) = 0xFFFF"
      using "1.IH" [OF True ne] "1.prems" by simp
    with True ne show ?thesis by (subst overlay_find_from.simps) simp
  next
    case False
    then show ?thesis by (subst overlay_find_from.simps) simp
  qed
qed

lemma overlay_find_from_first:
  "i \<le> j \<Longrightarrow> j < MAX_OVERLAY_SECTORS \<Longrightarrow> ids ! j = ucast sec
     \<Longrightarrow> (\<forall>k. i \<le> k \<and> k < j \<longrightarrow> ids ! k \<noteq> ucast sec)
     \<Longrightarrow> overlay_find_from ids sec i = of_nat j"
proof (induction ids sec i rule: overlay_find_from.induct)
  case (1 ids sector i)
  from "1.prems" have lt: "i < MAX_OVERLAY_SECTORS" by simp
  show ?case
  proof (cases "ids ! i = ucast sector")
    case True
    with "1.prems" have "i = j" by (metis le_neq_implies_less le_refl)
    with True lt show ?thesis by (subst overlay_find_from.simps) simp
  next
    case False
    with "1.prems" have "i \<noteq> j" by auto
    with "1.prems" have "i + 1 \<le> j" by simp
    then have "overlay_find_from ids sector (i + 1) = of_nat j"
      using "1.IH" [OF lt False] "1.prems" by simp
    with False lt show ?thesis by (subst overlay_find_from.simps) simp
  qed
qed

lemma overlay_find_from_cases:
  "(overlay_find_from ids sec i = 0xFFFF
      \<and> (\<forall>j. i \<le> j \<and> j < MAX_OVERLAY_SECTORS \<longrightarrow> ids ! j \<noteq> ucast sec))
   \<or> (\<exists>j. i \<le> j \<and> j < MAX_OVERLAY_SECTORS \<and> ids ! j = ucast sec
        \<and> (\<forall>k. i \<le> k \<and> k < j \<longrightarrow> ids ! k \<noteq> ucast sec)
        \<and> overlay_find_from ids sec i = of_nat j)"
proof (cases "\<exists>j. i \<le> j \<and> j < MAX_OVERLAY_SECTORS \<and> ids ! j = ucast sec")
  case False
  then show ?thesis using overlay_find_from_none [of i ids sec] by blast
next
  case True
  define P where "P = (\<lambda>j. i \<le> j \<and> j < MAX_OVERLAY_SECTORS \<and> ids ! j = ucast sec)"
  from True have ex: "\<exists>j. P j" by (simp add: P_def)
  define j where "j = (LEAST j. P j)"
  have Pj: "P j" unfolding j_def using ex by (metis LeastI)
  have least: "\<And>k. k < j \<Longrightarrow> \<not> P k" unfolding j_def by (rule not_less_Least)
  have "\<forall>k. i \<le> k \<and> k < j \<longrightarrow> ids ! k \<noteq> ucast sec"
    using least Pj by (auto simp: P_def)
  moreover from this Pj have "overlay_find_from ids sec i = of_nat j"
    by (intro overlay_find_from_first) (auto simp: P_def)
  ultimately show ?thesis using Pj by (auto simp: P_def)
qed


lemma overlay_find_from_cong:
  "(\<forall>j. i \<le> j \<and> j < MAX_OVERLAY_SECTORS \<longrightarrow> (ids ! j = ucast t) = (ids' ! j = ucast t))
     \<Longrightarrow> overlay_find_from ids t i = overlay_find_from ids' t i"
proof (induction ids t i rule: overlay_find_from.induct)
  case (1 ids sector i)
  show ?case
  proof (cases "i < MAX_OVERLAY_SECTORS")
    case True
    with "1.prems" have eq: "(ids ! i = ucast sector) = (ids' ! i = ucast sector)" by simp
    show ?thesis
    proof (cases "ids ! i = ucast sector")
      case True
      with eq \<open>i < MAX_OVERLAY_SECTORS\<close> show ?thesis
        by (simp add: overlay_find_from.simps [of ids sector i] overlay_find_from.simps [of ids' sector i])
    next
      case False
      have "overlay_find_from ids sector (i + 1) = overlay_find_from ids' sector (i + 1)"
        using "1.IH" [OF True False] "1.prems" by simp
      with False eq True show ?thesis
        by (simp add: overlay_find_from.simps [of ids sector i] overlay_find_from.simps [of ids' sector i])
    qed
  next
    case False
    then show ?thesis
      by (simp add: overlay_find_from.simps [of ids sector i] overlay_find_from.simps [of ids' sector i])
  qed
qed

lemma overlay_find_absent:
  assumes "length (overlay_sector_id s) = MAX_OVERLAY_SECTORS"
  shows "overlay_find s sec = 0xFFFF \<longleftrightarrow> ucast sec \<notin> set (overlay_sector_id s)"
proof -
  let ?ids = "overlay_sector_id s"
  from overlay_find_from_cases [of ?ids sec 0]
  show ?thesis
  proof
    assume "overlay_find_from ?ids sec 0 = 0xFFFF
      \<and> (\<forall>j. 0 \<le> j \<and> j < MAX_OVERLAY_SECTORS \<longrightarrow> ?ids ! j \<noteq> ucast sec)"
    then show ?thesis using assms
      by (auto simp: overlay_find_def in_set_conv_nth)
  next
    assume "\<exists>j. 0 \<le> j \<and> j < MAX_OVERLAY_SECTORS \<and> ?ids ! j = ucast sec
        \<and> (\<forall>k. 0 \<le> k \<and> k < j \<longrightarrow> ?ids ! k \<noteq> ucast sec)
        \<and> overlay_find_from ?ids sec 0 = of_nat j"
    then obtain j where j: "j < MAX_OVERLAY_SECTORS" "?ids ! j = ucast sec"
        "overlay_find_from ?ids sec 0 = of_nat j" by blast
    then have "ucast sec \<in> set ?ids" using assms by (metis nth_mem)
    moreover have "overlay_find s sec \<noteq> 0xFFFF"
      using j slot_word [of j] by (simp add: overlay_find_def)
    ultimately show ?thesis by simp
  qed
qed

lemma overlay_find_present:
  assumes "length (overlay_sector_id s) = MAX_OVERLAY_SECTORS"
      and "ucast sec \<in> set (overlay_sector_id s)"
  shows "\<exists>j < MAX_OVERLAY_SECTORS. overlay_sector_id s ! j = ucast sec
           \<and> (\<forall>k < j. overlay_sector_id s ! k \<noteq> ucast sec)
           \<and> overlay_find s sec = of_nat j"
  using overlay_find_from_cases [of "overlay_sector_id s" sec 0] assms
  by (auto simp: overlay_find_def in_set_conv_nth)

lemma overlay_alloc_from_none:
  "(\<forall>j. i \<le> j \<and> j < MAX_OVERLAY_SECTORS \<longrightarrow> overlay_sector_id s ! j \<noteq> 0xFFFF)
     \<Longrightarrow> overlay_alloc_from bin s sec i = (0xFFFF, s)"
proof (induction bin s sec i rule: overlay_alloc_from.induct)
  case (1 bin s sector idx)
  show ?case
  proof (cases "idx < MAX_OVERLAY_SECTORS")
    case True
    with "1.prems" have ne: "overlay_sector_id s ! idx \<noteq> 0xFFFF" by simp
    have "overlay_alloc_from bin s sector (idx + 1) = (0xFFFF, s)"
      using "1.IH" [OF True ne] "1.prems" by simp
    with True ne show ?thesis by (subst overlay_alloc_from.simps) simp
  next
    case False
    then show ?thesis by (subst overlay_alloc_from.simps) simp
  qed
qed

lemma overlay_alloc_from_first:
  "i \<le> j \<Longrightarrow> j < MAX_OVERLAY_SECTORS \<Longrightarrow> overlay_sector_id s ! j = 0xFFFF
     \<Longrightarrow> (\<forall>k. i \<le> k \<and> k < j \<longrightarrow> overlay_sector_id s ! k \<noteq> 0xFFFF)
     \<Longrightarrow> overlay_alloc_from bin s sec i =
           (of_nat j,
            s\<lparr> overlay_sector_id := (overlay_sector_id s)[j := ucast sec],
               overlay_sector_data := (overlay_sector_data s)
                 [j := memcpy (overlay_sector_data s ! j) 0 bin (unat (sec * 512)) SECTOR_SIZE],
               overlay_used_count := overlay_used_count s + 1 \<rparr>)"
proof (induction bin s sec i rule: overlay_alloc_from.induct)
  case (1 bin s sector idx)
  from "1.prems" have lt: "idx < MAX_OVERLAY_SECTORS" by simp
  show ?case
  proof (cases "overlay_sector_id s ! idx = 0xFFFF")
    case True
    with "1.prems" have "idx = j" by (metis le_neq_implies_less le_refl)
    with True lt show ?thesis by (subst overlay_alloc_from.simps) simp
  next
    case False
    with "1.prems" have "idx \<noteq> j" by auto
    with "1.prems" have "idx + 1 \<le> j" by simp
    then have "overlay_alloc_from bin s sector (idx + 1) =
           (of_nat j,
            s\<lparr> overlay_sector_id := (overlay_sector_id s)[j := ucast sector],
               overlay_sector_data := (overlay_sector_data s)
                 [j := memcpy (overlay_sector_data s ! j) 0 bin (unat (sector * 512)) SECTOR_SIZE],
               overlay_used_count := overlay_used_count s + 1 \<rparr>)"
      using "1.IH" [OF lt False] "1.prems" by simp
    with False lt show ?thesis by (subst overlay_alloc_from.simps) simp
  qed
qed

lemma first_index_ex:
  assumes "x \<in> set xs"
  shows "\<exists>j < length xs. xs ! j = x \<and> (\<forall>k < j. xs ! k \<noteq> x)"
proof -
  define P where "P = (\<lambda>j. j < length xs \<and> xs ! j = x)"
  from assms have ex: "\<exists>j. P j" by (auto simp: P_def in_set_conv_nth)
  define j where "j = (LEAST j. P j)"
  have Pj: "P j" unfolding j_def using ex by (metis LeastI)
  have least: "\<And>k. k < j \<Longrightarrow> \<not> P k" unfolding j_def by (rule not_less_Least)
  from Pj have "j < length xs" "xs ! j = x" by (auto simp: P_def)
  moreover have "\<forall>k < j. xs ! k \<noteq> x"
    using least \<open>j < length xs\<close> by (auto simp: P_def)
  ultimately show ?thesis by blast
qed

text \<open>What \<^verbatim>\<open>overlay_get_or_create\<close> does, by the three cases of the table.\<close>

lemma get_or_create_found:
  assumes "length (overlay_sector_id s) = MAX_OVERLAY_SECTORS"
      and "ucast sec \<in> set (overlay_sector_id s)"
  shows "\<exists>j < MAX_OVERLAY_SECTORS. overlay_sector_id s ! j = ucast sec
           \<and> overlay_find s sec = of_nat j
           \<and> overlay_get_or_create bin s sec = (of_nat j, s)"
proof -
  from overlay_find_present [OF assms] obtain j where
    j: "j < MAX_OVERLAY_SECTORS" "overlay_sector_id s ! j = ucast sec" "overlay_find s sec = of_nat j"
    by blast
  with slot_word [of j] have "overlay_get_or_create bin s sec = (of_nat j, s)"
    by (simp add: overlay_get_or_create_def)
  with j show ?thesis by blast
qed

lemma get_or_create_full:
  assumes "length (overlay_sector_id s) = MAX_OVERLAY_SECTORS"
      and "ucast sec \<notin> set (overlay_sector_id s)"
      and "0xFFFF \<notin> set (overlay_sector_id s)"
  shows "overlay_get_or_create bin s sec = (0xFFFF, s)"
proof -
  have "overlay_find s sec = 0xFFFF"
    using overlay_find_absent [OF assms(1)] assms(2) by simp
  moreover have "overlay_alloc_from bin s sec 0 = (0xFFFF, s)"
    using assms(1,3) by (intro overlay_alloc_from_none) (metis nth_mem)
  ultimately show ?thesis by (simp add: overlay_get_or_create_def)
qed

lemma get_or_create_alloc:
  assumes "length (overlay_sector_id s) = MAX_OVERLAY_SECTORS"
      and "ucast sec \<notin> set (overlay_sector_id s)"
      and "0xFFFF \<in> set (overlay_sector_id s)"
  shows "\<exists>j < MAX_OVERLAY_SECTORS. overlay_sector_id s ! j = 0xFFFF
           \<and> overlay_get_or_create bin s sec =
           (of_nat j,
            s\<lparr> overlay_sector_id := (overlay_sector_id s)[j := ucast sec],
               overlay_sector_data := (overlay_sector_data s)
                 [j := memcpy (overlay_sector_data s ! j) 0 bin (unat (sec * 512)) SECTOR_SIZE],
               overlay_used_count := overlay_used_count s + 1 \<rparr>)"
proof -
  have nf: "overlay_find s sec = 0xFFFF"
    using overlay_find_absent [OF assms(1)] assms(2) by simp
  from first_index_ex [OF assms(3)] obtain j where
    j: "j < length (overlay_sector_id s)" "overlay_sector_id s ! j = 0xFFFF"
       "\<forall>k < j. overlay_sector_id s ! k \<noteq> 0xFFFF" by blast
  with assms(1) have lt: "j < MAX_OVERLAY_SECTORS" by simp
  have "overlay_alloc_from bin s sec 0 =
           (of_nat j,
            s\<lparr> overlay_sector_id := (overlay_sector_id s)[j := ucast sec],
               overlay_sector_data := (overlay_sector_data s)
                 [j := memcpy (overlay_sector_data s ! j) 0 bin (unat (sec * 512)) SECTOR_SIZE],
               overlay_used_count := overlay_used_count s + 1 \<rparr>)"
    using j lt by (intro overlay_alloc_from_first) auto
  with nf j lt show ?thesis by (auto simp: overlay_get_or_create_def)
qed


lemma read_sector_put:
  assumes len: "length (overlay_sector_id s) = MAX_OVERLAY_SECTORS"
               "length (overlay_sector_data s) = MAX_OVERLAY_SECTORS"
      and j: "j < MAX_OVERLAY_SECTORS" "\<forall>k < j. overlay_sector_id s ! k \<noteq> ucast sec"
      and s': "overlay_sector_id s' = (overlay_sector_id s)[j := ucast sec]"
              "overlay_sector_data s' = (overlay_sector_data s)[j := P]"
  shows "read_sector bin s' sec = take SECTOR_SIZE P"
    and "ucast t \<noteq> (ucast sec :: u16) \<Longrightarrow> ucast t \<noteq> overlay_sector_id s ! j
           \<Longrightarrow> read_sector bin s' t = read_sector bin s t"
proof -
  have "overlay_find_from (overlay_sector_id s') sec 0 = of_nat j"
    using j len s' by (intro overlay_find_from_first) auto
  then show "read_sector bin s' sec = take SECTOR_SIZE P"
    using slot_word [OF j(1)] j(1) len s' by (simp add: read_sector_def overlay_find_def)
next
  assume t: "ucast t \<noteq> (ucast sec :: u16)" "ucast t \<noteq> overlay_sector_id s ! j"
  have "\<forall>i. 0 \<le> i \<and> i < MAX_OVERLAY_SECTORS \<longrightarrow>
          (overlay_sector_id s ! i = ucast t) = (overlay_sector_id s' ! i = ucast t)"
    using t len s' j(1) by (auto simp: nth_list_update)
  then have eq: "overlay_find s' t = overlay_find s t"
    unfolding overlay_find_def by (metis overlay_find_from_cong)
  show "read_sector bin s' t = read_sector bin s t"
  proof (cases "overlay_find s t = 0xFFFF")
    case True
    with eq show ?thesis by (simp add: read_sector_def)
  next
    case False
    then have "ucast t \<in> set (overlay_sector_id s)"
      using overlay_find_absent [OF len(1), of t] by simp
    from overlay_find_present [OF len(1) this] obtain i where
      i: "i < MAX_OVERLAY_SECTORS" "overlay_sector_id s ! i = ucast t" "overlay_find s t = of_nat i"
      by blast
    with t have "i \<noteq> j" by auto
    with i eq slot_word [OF i(1)] s' show ?thesis
      by (simp add: read_sector_def)
  qed
qed

lemma memcpy_whole:
  "length d \<le> n \<Longrightarrow> memcpy d 0 src off n = take n (drop off src)"
  by (simp add: memcpy_def)

lemma length_memcpy_le:
  "length d = n \<Longrightarrow> length (memcpy d 0 src off n) \<le> n"
  by (simp add: memcpy_def)

text \<open>One round of the write loop: the slot, and the payload stored in it.\<close>

lemma write_step:
  assumes inv: "ov_inv s"
      and goc: "overlay_get_or_create bin s sec = (idx, s')"
  shows "(idx = 0xFFFF \<and> s' = s \<and> ucast sec \<notin> set (overlay_sector_id s)
             \<and> 0xFFFF \<notin> set (overlay_sector_id s))
       \<or> (idx \<noteq> 0xFFFF \<and> (\<exists>j < MAX_OVERLAY_SECTORS.
             (\<forall>k < j. overlay_sector_id s ! k \<noteq> ucast sec)
             \<and> (overlay_sector_id s ! j = ucast sec
                  \<or> overlay_sector_id s ! j = 0xFFFF \<and> ucast sec \<notin> set (overlay_sector_id s))
             \<and> s'\<lparr> overlay_sector_data := (overlay_sector_data s')
                     [unat idx := memcpy (overlay_sector_data s' ! unat idx) 0 src off SECTOR_SIZE] \<rparr>
                = s\<lparr> overlay_sector_id := (overlay_sector_id s)[j := ucast sec],
                     overlay_sector_data := (overlay_sector_data s)[j := take SECTOR_SIZE (drop off src)],
                     overlay_used_count := (if overlay_sector_id s ! j = ucast sec
                                            then overlay_used_count s else overlay_used_count s + 1) \<rparr>))"
proof -
  from inv have len: "length (overlay_sector_id s) = MAX_OVERLAY_SECTORS"
      "length (overlay_sector_data s) = MAX_OVERLAY_SECTORS"
    and d512: "\<And>j. j < MAX_OVERLAY_SECTORS \<Longrightarrow> length (overlay_sector_data s ! j) = SECTOR_SIZE"
    by (auto simp: ov_inv_def)
  consider (found) "ucast sec \<in> set (overlay_sector_id s)"
    | (alloc) "ucast sec \<notin> set (overlay_sector_id s)" "0xFFFF \<in> set (overlay_sector_id s)"
    | (full) "ucast sec \<notin> set (overlay_sector_id s)" "0xFFFF \<notin> set (overlay_sector_id s)"
    by blast
  then show ?thesis
  proof cases
    case found
    from overlay_find_present [OF len(1) found] obtain j where
      j: "j < MAX_OVERLAY_SECTORS" "overlay_sector_id s ! j = ucast sec"
         "\<forall>k < j. overlay_sector_id s ! k \<noteq> ucast sec" "overlay_find s sec = of_nat j"
      by blast
    with slot_word [OF j(1)] goc have r: "idx = of_nat j" "s' = s" "idx \<noteq> 0xFFFF" "unat idx = j"
      by (auto simp: overlay_get_or_create_def)
    have "memcpy (overlay_sector_data s ! j) 0 src off SECTOR_SIZE = take SECTOR_SIZE (drop off src)"
      using d512 [OF j(1)] by (simp add: memcpy_whole)
    moreover have "(overlay_sector_id s)[j := ucast sec] = overlay_sector_id s"
      using j(2) by (metis list_update_id)
    ultimately show ?thesis using r j by auto
  next
    case alloc
    from get_or_create_alloc [OF len(1) alloc, of bin] goc obtain j where
      j: "j < MAX_OVERLAY_SECTORS" "overlay_sector_id s ! j = 0xFFFF"
      and r: "idx = of_nat j"
         "s' = s\<lparr> overlay_sector_id := (overlay_sector_id s)[j := ucast sec],
               overlay_sector_data := (overlay_sector_data s)
                 [j := memcpy (overlay_sector_data s ! j) 0 bin (unat (sec * 512)) SECTOR_SIZE],
               overlay_used_count := overlay_used_count s + 1 \<rparr>"
      by auto
    from slot_word [OF j(1)] r have i: "idx \<noteq> 0xFFFF" "unat idx = j" by auto
    have k: "\<forall>k < j. overlay_sector_id s ! k \<noteq> ucast sec"
      using alloc(1) j(1) len(1) by (metis less_trans nth_mem)
    have ne: "overlay_sector_id s ! j \<noteq> ucast sec"
      using alloc(1) j(1) len(1) by (metis nth_mem)
    have "length (memcpy (overlay_sector_data s ! j) 0 bin (unat (sec * 512)) SECTOR_SIZE) \<le> SECTOR_SIZE"
      using d512 [OF j(1)] by (rule length_memcpy_le)
    then have "memcpy (memcpy (overlay_sector_data s ! j) 0 bin (unat (sec * 512)) SECTOR_SIZE) 0 src off SECTOR_SIZE
                = take SECTOR_SIZE (drop off src)"
      by (rule memcpy_whole)
    then show ?thesis using i r j k ne alloc(1) len by auto
  next
    case full
    from get_or_create_full [OF len(1) full, of bin] goc full show ?thesis by auto
  qed
qed

subsection \<open>The write loop of the overlay\<close>

lemma set_update_other:
  assumes "j < length xs" "k \<noteq> xs ! j"
  shows "k \<in> set (xs[j := v]) \<longleftrightarrow> k = v \<or> k \<in> set xs"
proof
  assume "k \<in> set (xs[j := v])"
  then show "k = v \<or> k \<in> set xs"
    using set_update_subset_insert [of xs j v] by auto
next
  assume "k = v \<or> k \<in> set xs"
  then show "k \<in> set (xs[j := v])"
  proof
    assume "k = v"
    with assms(1) show ?thesis by (simp add: set_update_memI)
  next
    assume "k \<in> set xs"
    then obtain i where i: "i < length xs" "xs ! i = k" by (auto simp: in_set_conv_nth)
    with assms(2) have "i \<noteq> j" by auto
    with i have "xs[j := v] ! i = k" "i < length (xs[j := v])" by simp_all
    then show ?thesis by (metis nth_mem)
  qed
qed

lemma count_list_update:
  "j < length xs \<Longrightarrow> xs ! j = f \<Longrightarrow> v \<noteq> f
     \<Longrightarrow> count_list (xs[j := v]) f + 1 = count_list xs f"
proof (induction xs arbitrary: j)
  case Nil
  then show ?case by simp
next
  case (Cons x xs)
  then show ?case by (cases j) auto
qed

lemma write_loop_inv_step:
  assumes "ov_inv s" "j < MAX_OVERLAY_SECTORS" "length P = SECTOR_SIZE"
  shows "ov_inv (s\<lparr> overlay_sector_id := (overlay_sector_id s)[j := v],
                    overlay_sector_data := (overlay_sector_data s)[j := P],
                    overlay_used_count := u \<rparr>)"
proof -
  have "\<forall>d \<in> set ((overlay_sector_data s)[j := P]). length d = SECTOR_SIZE"
    using assms set_update_subset_insert [of "overlay_sector_data s" j P]
    by (auto simp: ov_inv_def)
  then show ?thesis using assms(1) by (simp add: ov_inv_def)
qed

lemma write_loop_effect:
  assumes inv: "ov_inv s"
      and keys: "\<forall>j < n - i. (ucast (sector + of_nat j) :: u16) \<noteq> 0xFFFF"
      and inj: "\<forall>j < n - i. \<forall>j' < n - i.
                  (ucast (sector + of_nat j) :: u16) = ucast (sector + of_nat j') \<longrightarrow> j = j'"
      and src: "n * SECTOR_SIZE \<le> length src"
  shows "\<exists>m s'. write_overlay_loop bin s sector src i n
                   = ((if m = n - i then RES_OK else RES_ERROR), s')
        \<and> m \<le> n - i \<and> ov_inv s'
        \<and> g_img_ram s' = g_img_ram s \<and> g_img_size s' = g_img_size s
        \<and> g_sector_count s' = g_sector_count s \<and> g_sd_ready s' = g_sd_ready s
        \<and> (\<forall>j < m. read_sector bin s' (sector + of_nat j)
                       = take SECTOR_SIZE (drop ((i + j) * SECTOR_SIZE) src))
        \<and> (\<forall>t. (ucast t :: u16) \<noteq> 0xFFFF
               \<longrightarrow> (\<forall>j < m. (ucast t :: u16) \<noteq> ucast (sector + of_nat j))
               \<longrightarrow> read_sector bin s' t = read_sector bin s t
                   \<and> ((ucast t :: u16) \<in> set (overlay_sector_id s')
                        \<longleftrightarrow> (ucast t :: u16) \<in> set (overlay_sector_id s)))
        \<and> (m < n - i \<longrightarrow> (ucast (sector + of_nat m) :: u16) \<notin> set (overlay_sector_id s')
                           \<and> 0xFFFF \<notin> set (overlay_sector_id s'))"
  using assms
proof (induction k \<equiv> "n - i" arbitrary: s sector i)
  case 0
  then have "write_overlay_loop bin s sector src i n = (RES_OK, s)"
    by (subst write_overlay_loop.simps) simp
  with 0 show ?case by (intro exI [of _ 0] exI [of _ s]) simp
next
  case (Suc k)
  from Suc.hyps(2) have lt: "i < n" and k: "k = n - (i + 1)" by simp_all
  from Suc.prems(1) have len: "length (overlay_sector_id s) = MAX_OVERLAY_SECTORS"
      "length (overlay_sector_data s) = MAX_OVERLAY_SECTORS"
    by (auto simp: ov_inv_def)
  obtain idx s0 where goc: "overlay_get_or_create bin s sector = (idx, s0)"
    by (cases "overlay_get_or_create bin s sector")
  have key0: "(ucast sector :: u16) \<noteq> 0xFFFF"
    using Suc.prems(2) [rule_format, of 0] lt by simp
  let ?P = "take SECTOR_SIZE (drop (i * SECTOR_SIZE) src)"
  have lenP: "length ?P = SECTOR_SIZE"
  proof -
    from lt have "(i + 1) * SECTOR_SIZE \<le> n * SECTOR_SIZE" by (simp add: SECTOR_SIZE_def)
    with Suc.prems(4) show ?thesis by (simp add: SECTOR_SIZE_def)
  qed
  note ws = write_step [OF Suc.prems(1) goc, of src "i * SECTOR_SIZE"]
  show ?case
  proof (cases "idx = 0xFFFF")
    case True
    with ws have full: "s0 = s" "ucast sector \<notin> set (overlay_sector_id s)"
                 "0xFFFF \<notin> set (overlay_sector_id s)"
      by blast+
    with goc lt True have "write_overlay_loop bin s sector src i n = (RES_ERROR, s)"
      by (subst write_overlay_loop.simps) simp
    with full lt Suc.prems(1) show ?thesis
      by (intro exI [of _ 0] exI [of _ s]) simp
  next
    case idx: False
    with ws obtain j where
          j: "j < MAX_OVERLAY_SECTORS" "\<forall>k < j. overlay_sector_id s ! k \<noteq> ucast sector"
      and jj: "overlay_sector_id s ! j = ucast sector
                \<or> overlay_sector_id s ! j = 0xFFFF \<and> ucast sector \<notin> set (overlay_sector_id s)"
      and s1: "s0\<lparr> overlay_sector_data := (overlay_sector_data s0)
                     [unat idx := memcpy (overlay_sector_data s0 ! unat idx) 0 src (i * SECTOR_SIZE) SECTOR_SIZE] \<rparr>
                = s\<lparr> overlay_sector_id := (overlay_sector_id s)[j := ucast sector],
                     overlay_sector_data := (overlay_sector_data s)[j := ?P],
                     overlay_used_count := (if overlay_sector_id s ! j = ucast sector
                                            then overlay_used_count s else overlay_used_count s + 1) \<rparr>"
      by blast
    define s1 where "s1 = s\<lparr> overlay_sector_id := (overlay_sector_id s)[j := ucast sector],
                     overlay_sector_data := (overlay_sector_data s)[j := ?P],
                     overlay_used_count := (if overlay_sector_id s ! j = ucast sector
                                            then overlay_used_count s else overlay_used_count s + 1) \<rparr>"
    have unfold: "write_overlay_loop bin s sector src i n
                    = write_overlay_loop bin s1 (sector + 1) src (i + 1) n"
      using lt goc idx s1 unfolding s1_def
      by (subst write_overlay_loop.simps) simp
    have ids1: "overlay_sector_id s1 = (overlay_sector_id s)[j := ucast sector]"
      and data1: "overlay_sector_data s1 = (overlay_sector_data s)[j := ?P]"
      by (simp_all add: s1_def)
    have inv1: "ov_inv s1"
    proof -
      have "\<forall>d \<in> set ((overlay_sector_data s)[j := ?P]). length d = SECTOR_SIZE"
        using Suc.prems(1) lenP set_update_subset_insert [of "overlay_sector_data s" j ?P]
        by (auto simp: ov_inv_def)
      moreover have "length (overlay_sector_id s1) = MAX_OVERLAY_SECTORS"
        "length (overlay_sector_data s1) = MAX_OVERLAY_SECTORS"
        using len by (simp_all only: ids1 data1 length_list_update)
      ultimately show ?thesis unfolding ov_inv_def data1 by blast
    qed
    have shift: "\<And>x. sector + 1 + of_nat x = sector + of_nat (Suc x)" by simp
    have keys1: "\<forall>x < n - (i + 1). (ucast (sector + 1 + of_nat x) :: u16) \<noteq> 0xFFFF"
    proof (intro allI impI)
      fix x assume "x < n - (i + 1)"
      then have "Suc x < n - i" by simp
      with Suc.prems(2) have "(ucast (sector + of_nat (Suc x)) :: u16) \<noteq> 0xFFFF" by blast
      then show "(ucast (sector + 1 + of_nat x) :: u16) \<noteq> 0xFFFF" unfolding shift .
    qed
    have inj1: "\<forall>x < n - (i + 1). \<forall>y < n - (i + 1).
                  (ucast (sector + 1 + of_nat x) :: u16) = ucast (sector + 1 + of_nat y) \<longrightarrow> x = y"
    proof (intro allI impI)
      fix x y assume xy: "x < n - (i + 1)" "y < n - (i + 1)"
        "(ucast (sector + 1 + of_nat x) :: u16) = ucast (sector + 1 + of_nat y)"
      then have "Suc x < n - i" "Suc y < n - i" by simp_all
      with Suc.prems(3) xy(3) have "Suc x = Suc y" unfolding shift by blast
      then show "x = y" by simp
    qed
    from Suc.hyps(1) [OF k inv1 keys1 inj1 Suc.prems(4)]
    obtain m s' where
      res: "write_overlay_loop bin s1 (sector + 1) src (i + 1) n
              = ((if m = n - (i + 1) then RES_OK else RES_ERROR), s')"
      and m: "m \<le> n - (i + 1)" and inv': "ov_inv s'"
      and g: "g_img_ram s' = g_img_ram s1" "g_img_size s' = g_img_size s1"
             "g_sector_count s' = g_sector_count s1" "g_sd_ready s' = g_sd_ready s1"
      and wr: "\<forall>x < m. read_sector bin s' (sector + 1 + of_nat x)
                       = take SECTOR_SIZE (drop ((i + 1 + x) * SECTOR_SIZE) src)"
      and fr: "\<forall>t. (ucast t :: u16) \<noteq> 0xFFFF
               \<longrightarrow> (\<forall>x < m. (ucast t :: u16) \<noteq> ucast (sector + 1 + of_nat x))
               \<longrightarrow> read_sector bin s' t = read_sector bin s1 t
                   \<and> ((ucast t :: u16) \<in> set (overlay_sector_id s')
                        \<longleftrightarrow> (ucast t :: u16) \<in> set (overlay_sector_id s1))"
      and fu: "m < n - (i + 1) \<longrightarrow> (ucast (sector + 1 + of_nat m) :: u16) \<notin> set (overlay_sector_id s')
                           \<and> 0xFFFF \<notin> set (overlay_sector_id s')"
      by blast
    have slotj: "overlay_sector_id s ! j = ucast sector \<or> overlay_sector_id s ! j = 0xFFFF"
      using jj by blast
    have put_self: "read_sector bin s1 sector = ?P"
      using read_sector_put(1) [OF len j ids1 data1, of bin] by simp
    have put_other: "\<And>t :: u32. (ucast t :: u16) \<noteq> 0xFFFF \<Longrightarrow> (ucast t :: u16) \<noteq> ucast sector
        \<Longrightarrow> read_sector bin s1 t = read_sector bin s t
            \<and> ((ucast t :: u16) \<in> set (overlay_sector_id s1)
                 \<longleftrightarrow> (ucast t :: u16) \<in> set (overlay_sector_id s))"
    proof -
      fix t :: u32 assume t: "(ucast t :: u16) \<noteq> 0xFFFF" "(ucast t :: u16) \<noteq> ucast sector"
      with slotj have ne: "ucast t \<noteq> overlay_sector_id s ! j" by auto
      have "read_sector bin s1 t = read_sector bin s t"
        using read_sector_put(2) [OF len j ids1 data1 t(2) ne] .
      moreover have "(ucast t :: u16) \<in> set (overlay_sector_id s1)
                 \<longleftrightarrow> (ucast t :: u16) \<in> set (overlay_sector_id s)"
        using set_update_other [of j "overlay_sector_id s" "ucast t" "ucast sector"] ne t(2) j(1) len(1)
        by (simp add: ids1)
      ultimately show "read_sector bin s1 t = read_sector bin s t
            \<and> ((ucast t :: u16) \<in> set (overlay_sector_id s1)
                 \<longleftrightarrow> (ucast t :: u16) \<in> set (overlay_sector_id s))" by simp
    qed
    have first_distinct: "\<forall>x < m. (ucast sector :: u16) \<noteq> ucast (sector + 1 + of_nat x)"
    proof (intro allI impI notI)
      fix x assume x: "x < m" "(ucast sector :: u16) = ucast (sector + 1 + of_nat x)"
      with m have "Suc x < n - i" "0 < n - i" by simp_all
      moreover from x(2) have "(ucast (sector + of_nat 0) :: u16) = ucast (sector + of_nat (Suc x))"
        unfolding shift by simp
      ultimately show False
        using Suc.prems(3) [rule_format, of 0 "Suc x"] by simp
    qed
    have wr': "\<forall>x < Suc m. read_sector bin s' (sector + of_nat x)
                       = take SECTOR_SIZE (drop ((i + x) * SECTOR_SIZE) src)"
    proof (intro allI impI)
      fix x assume "x < Suc m"
      show "read_sector bin s' (sector + of_nat x) = take SECTOR_SIZE (drop ((i + x) * SECTOR_SIZE) src)"
      proof (cases x)
        case 0
        have "read_sector bin s' sector = read_sector bin s1 sector"
          using fr key0 first_distinct by blast
        with put_self 0 show ?thesis by simp
      next
        case (Suc y)
        with \<open>x < Suc m\<close> have "y < m" by simp
        with wr have "read_sector bin s' (sector + 1 + of_nat y)
                       = take SECTOR_SIZE (drop ((i + 1 + y) * SECTOR_SIZE) src)" by blast
        then have "read_sector bin s' (sector + of_nat (Suc y))
                       = take SECTOR_SIZE (drop ((i + Suc y) * SECTOR_SIZE) src)"
          unfolding shift by simp
        with Suc show ?thesis by blast
      qed
    qed
    have fr': "\<forall>t. (ucast t :: u16) \<noteq> 0xFFFF
               \<longrightarrow> (\<forall>x < Suc m. (ucast t :: u16) \<noteq> ucast (sector + of_nat x))
               \<longrightarrow> read_sector bin s' t = read_sector bin s t
                   \<and> ((ucast t :: u16) \<in> set (overlay_sector_id s')
                        \<longleftrightarrow> (ucast t :: u16) \<in> set (overlay_sector_id s))"
    proof (intro allI impI)
      fix t :: u32 assume t: "(ucast t :: u16) \<noteq> 0xFFFF"
        "\<forall>x < Suc m. (ucast t :: u16) \<noteq> ucast (sector + of_nat x)"
      from t(2) [rule_format, of 0] have t0: "(ucast t :: u16) \<noteq> ucast sector"
        by simp
      have "\<forall>x < m. (ucast t :: u16) \<noteq> ucast (sector + 1 + of_nat x)"
      proof (intro allI impI)
        fix x assume "x < m"
        then have "Suc x < Suc m" by simp
        with t(2) have "(ucast t :: u16) \<noteq> ucast (sector + of_nat (Suc x))" by blast
        then show "(ucast t :: u16) \<noteq> ucast (sector + 1 + of_nat x)" unfolding shift .
      qed
      with fr t(1) have "read_sector bin s' t = read_sector bin s1 t
                   \<and> ((ucast t :: u16) \<in> set (overlay_sector_id s')
                        \<longleftrightarrow> (ucast t :: u16) \<in> set (overlay_sector_id s1))" by blast
      with put_other [OF t(1) t0]
      show "read_sector bin s' t = read_sector bin s t
                   \<and> ((ucast t :: u16) \<in> set (overlay_sector_id s')
                        \<longleftrightarrow> (ucast t :: u16) \<in> set (overlay_sector_id s))" by simp
    qed
    have fu': "Suc m < n - i \<longrightarrow> (ucast (sector + of_nat (Suc m)) :: u16) \<notin> set (overlay_sector_id s')
                           \<and> 0xFFFF \<notin> set (overlay_sector_id s')"
    proof
      assume "Suc m < n - i"
      then have "m < n - (i + 1)" by simp
      with fu show "(ucast (sector + of_nat (Suc m)) :: u16) \<notin> set (overlay_sector_id s')
                           \<and> 0xFFFF \<notin> set (overlay_sector_id s')" unfolding shift by blast
    qed
    have res': "write_overlay_loop bin s sector src i n
                   = ((if Suc m = n - i then RES_OK else RES_ERROR), s')"
      using unfold res lt by auto
    have g': "g_img_ram s' = g_img_ram s" "g_img_size s' = g_img_size s"
             "g_sector_count s' = g_sector_count s" "g_sd_ready s' = g_sd_ready s"
      using g by (simp_all add: s1_def)
    from m lt have m': "Suc m \<le> n - i" by simp
    show ?thesis
      using res' m' inv' g' wr' fr' fu'
      by (intro exI [of _ "Suc m"] exI [of _ s']) blast
  qed
qed


lemma length_filter_upt_Suc:
  "length (filter P [0..<Suc k])
     = (if P 0 then 1 else 0) + length (filter (\<lambda>j. P (Suc j)) [0..<k])"
proof (induction k)
  case 0
  then show ?case by simp
next
  case (Suc k)
  have "length (filter P [0..<Suc (Suc k)])
          = length (filter P [0..<Suc k]) + (if P (Suc k) then 1 else 0)"
    by simp
  also have "\<dots> = (if P 0 then 1 else 0) + length (filter (\<lambda>j. P (Suc j)) [0..<k])
                     + (if P (Suc k) then 1 else 0)"
    using Suc.IH by simp
  also have "\<dots> = (if P 0 then 1 else 0) + length (filter (\<lambda>j. P (Suc j)) [0..<Suc k])"
    by simp
  finally show ?case .
qed

text \<open>
  The loop ends with \<^verbatim>\<open>RES_OK\<close> exactly when the free slots suffice for the sectors of
  the request that have no slot yet.
\<close>

lemma write_loop_ok_iff:
  assumes inv: "ov_inv s"
      and keys: "\<forall>j < n - i. (ucast (sector + of_nat j) :: u16) \<noteq> 0xFFFF"
      and inj: "\<forall>j < n - i. \<forall>j' < n - i.
                  (ucast (sector + of_nat j) :: u16) = ucast (sector + of_nat j') \<longrightarrow> j = j'"
      and src: "n * SECTOR_SIZE \<le> length src"
  shows "fst (write_overlay_loop bin s sector src i n) = RES_OK
         \<longleftrightarrow> length (filter (\<lambda>j. (ucast (sector + of_nat j) :: u16) \<notin> set (overlay_sector_id s))
                       [0..<n - i])
              \<le> count_list (overlay_sector_id s) 0xFFFF"
  using assms
proof (induction k \<equiv> "n - i" arbitrary: s sector i)
  case 0
  then have "write_overlay_loop bin s sector src i n = (RES_OK, s)"
    by (subst write_overlay_loop.simps) simp
  with 0 show ?case by simp
next
  case (Suc k)
  from Suc.hyps(2) have lt: "i < n" and k: "k = n - (i + 1)" by simp_all
  from Suc.prems(1) have len: "length (overlay_sector_id s) = MAX_OVERLAY_SECTORS"
    by (auto simp: ov_inv_def)
  obtain idx s0 where goc: "overlay_get_or_create bin s sector = (idx, s0)"
    by (cases "overlay_get_or_create bin s sector")
  have key0: "(ucast sector :: u16) \<noteq> 0xFFFF"
    using Suc.prems(2) [rule_format, of 0] lt by simp
  let ?P = "take SECTOR_SIZE (drop (i * SECTOR_SIZE) src)"
  have lenP: "length ?P = SECTOR_SIZE"
  proof -
    from lt have "(i + 1) * SECTOR_SIZE \<le> n * SECTOR_SIZE" by (simp add: SECTOR_SIZE_def)
    with Suc.prems(4) show ?thesis by (simp add: SECTOR_SIZE_def)
  qed
  let ?N = "\<lambda>ids j. (ucast (sector + of_nat j) :: u16) \<notin> set ids"
  have split: "\<And>ids. length (filter (?N ids) [0..<n - i])
      = (if (ucast sector :: u16) \<notin> set ids then 1 else 0)
        + length (filter (\<lambda>j. ?N ids (Suc j)) [0..<k])"
  proof -
    fix ids :: "u16 list"
    have "length (filter (?N ids) [0..<Suc k])
      = (if ?N ids 0 then 1 else 0) + length (filter (\<lambda>j. ?N ids (Suc j)) [0..<k])"
      by (rule length_filter_upt_Suc)
    then show "length (filter (?N ids) [0..<n - i])
      = (if (ucast sector :: u16) \<notin> set ids then 1 else 0)
        + length (filter (\<lambda>j. ?N ids (Suc j)) [0..<k])"
      unfolding Suc.hyps(2) [symmetric] by (simp del: upt_Suc of_nat_Suc)
  qed
  note ws = write_step [OF Suc.prems(1) goc, of src "i * SECTOR_SIZE"]
  show ?case
  proof (cases "idx = 0xFFFF")
    case True
    with ws have full: "s0 = s" "ucast sector \<notin> set (overlay_sector_id s)"
                 "0xFFFF \<notin> set (overlay_sector_id s)"
      by blast+
    with goc lt True have "write_overlay_loop bin s sector src i n = (RES_ERROR, s)"
      by (subst write_overlay_loop.simps) simp
    moreover from full(3) have "count_list (overlay_sector_id s) 0xFFFF = 0" by simp
    ultimately show ?thesis using full(2) split [of "overlay_sector_id s"] by simp
  next
    case idx: False
    with ws obtain j where
          j: "j < MAX_OVERLAY_SECTORS" "\<forall>k < j. overlay_sector_id s ! k \<noteq> ucast sector"
      and jj: "overlay_sector_id s ! j = ucast sector
                \<or> overlay_sector_id s ! j = 0xFFFF \<and> ucast sector \<notin> set (overlay_sector_id s)"
      and s1: "s0\<lparr> overlay_sector_data := (overlay_sector_data s0)
                     [unat idx := memcpy (overlay_sector_data s0 ! unat idx) 0 src (i * SECTOR_SIZE) SECTOR_SIZE] \<rparr>
                = s\<lparr> overlay_sector_id := (overlay_sector_id s)[j := ucast sector],
                     overlay_sector_data := (overlay_sector_data s)[j := ?P],
                     overlay_used_count := (if overlay_sector_id s ! j = ucast sector
                                            then overlay_used_count s else overlay_used_count s + 1) \<rparr>"
      by blast
    define s1 where "s1 = s\<lparr> overlay_sector_id := (overlay_sector_id s)[j := ucast sector],
                     overlay_sector_data := (overlay_sector_data s)[j := ?P],
                     overlay_used_count := (if overlay_sector_id s ! j = ucast sector
                                            then overlay_used_count s else overlay_used_count s + 1) \<rparr>"
    have unfold: "write_overlay_loop bin s sector src i n
                    = write_overlay_loop bin s1 (sector + 1) src (i + 1) n"
      using lt goc idx s1 unfolding s1_def
      by (subst write_overlay_loop.simps) simp
    have ids1: "overlay_sector_id s1 = (overlay_sector_id s)[j := ucast sector]"
      by (simp add: s1_def)
    have inv1: "ov_inv s1"
      unfolding s1_def by (rule write_loop_inv_step [OF Suc.prems(1) j(1) lenP])
    have shift: "\<And>x. sector + 1 + of_nat x = sector + of_nat (Suc x)" by simp
    have keys1: "\<forall>x < n - (i + 1). (ucast (sector + 1 + of_nat x) :: u16) \<noteq> 0xFFFF"
    proof (intro allI impI)
      fix x assume "x < n - (i + 1)"
      then have "Suc x < n - i" by simp
      with Suc.prems(2) have "(ucast (sector + of_nat (Suc x)) :: u16) \<noteq> 0xFFFF" by blast
      then show "(ucast (sector + 1 + of_nat x) :: u16) \<noteq> 0xFFFF" unfolding shift .
    qed
    have inj1: "\<forall>x < n - (i + 1). \<forall>y < n - (i + 1).
                  (ucast (sector + 1 + of_nat x) :: u16) = ucast (sector + 1 + of_nat y) \<longrightarrow> x = y"
    proof (intro allI impI)
      fix x y assume xy: "x < n - (i + 1)" "y < n - (i + 1)"
        "(ucast (sector + 1 + of_nat x) :: u16) = ucast (sector + 1 + of_nat y)"
      then have "Suc x < n - i" "Suc y < n - i" by simp_all
      with Suc.prems(3) xy(3) have "Suc x = Suc y" unfolding shift by blast
      then show "x = y" by simp
    qed
    have IH: "fst (write_overlay_loop bin s1 (sector + 1) src (i + 1) n) = RES_OK
         \<longleftrightarrow> length (filter (\<lambda>x. (ucast (sector + 1 + of_nat x) :: u16) \<notin> set (overlay_sector_id s1))
                       [0..<k])
              \<le> count_list (overlay_sector_id s1) 0xFFFF"
      using Suc.hyps(1) [OF k inv1 keys1 inj1 Suc.prems(4)] k by simp
    have rest: "filter (\<lambda>x. (ucast (sector + 1 + of_nat x) :: u16) \<notin> set (overlay_sector_id s1)) [0..<k]
              = filter (\<lambda>x. ?N (overlay_sector_id s) (Suc x)) [0..<k]"
    proof (rule filter_cong [OF refl])
      fix x assume "x \<in> set [0..<k]"
      then have x: "Suc x < n - i" using Suc.hyps(2) by simp
      have a: "(ucast (sector + of_nat (Suc x)) :: u16) \<noteq> 0xFFFF"
        using Suc.prems(2) x by blast
      have b: "(ucast (sector + of_nat (Suc x)) :: u16) \<noteq> ucast sector"
      proof
        assume "(ucast (sector + of_nat (Suc x)) :: u16) = ucast sector"
        then have "(ucast (sector + of_nat (Suc x)) :: u16) = ucast (sector + of_nat 0)"
          by simp
        moreover have "0 < n - i" using lt by simp
        ultimately show False
          using Suc.prems(3) [rule_format, of "Suc x" 0] x by simp
      qed
      from a b jj have ne: "ucast (sector + of_nat (Suc x)) \<noteq> overlay_sector_id s ! j" by auto
      show "((ucast (sector + 1 + of_nat x) :: u16) \<notin> set (overlay_sector_id s1))
              = ?N (overlay_sector_id s) (Suc x)"
        unfolding shift ids1
        using set_update_other [of j "overlay_sector_id s" "ucast (sector + of_nat (Suc x))" "ucast sector"]
              ne b j(1) len by simp
    qed
    show ?thesis
    proof (cases "overlay_sector_id s ! j = ucast sector")
      case True
      then have "overlay_sector_id s1 = overlay_sector_id s"
        unfolding ids1 by (metis list_update_id)
      moreover from True j(1) len have "(ucast sector :: u16) \<in> set (overlay_sector_id s)"
        by (metis nth_mem)
      ultimately show ?thesis
        using unfold IH rest split [of "overlay_sector_id s"] by simp
    next
      case False
      with jj have free: "overlay_sector_id s ! j = 0xFFFF" "ucast sector \<notin> set (overlay_sector_id s)"
        by blast+
      have "count_list (overlay_sector_id s1) 0xFFFF + 1 = count_list (overlay_sector_id s) 0xFFFF"
        unfolding ids1 using count_list_update [of j "overlay_sector_id s" "0xFFFF" "ucast sector"]
          free(1) key0 j(1) len by simp
      then show ?thesis
        using unfold IH rest split [of "overlay_sector_id s"] free(2) by auto
    qed
  qed
qed

subsection \<open>The read loop of the overlay\<close>

lemma concat_chunks_take:
  "concat (map (\<lambda>j. take c (drop (j * c) xs)) [0..<n]) = take (n * c) xs"
proof (induction n)
  case 0
  then show ?case by simp
next
  case (Suc n)
  have "take (n * c + c) xs = take (n * c) xs @ take c (drop (n * c) xs)"
    by (rule take_add)
  with Suc show ?case by (simp add: add.commute)
qed

lemma read_loop_body:
  "i < n \<Longrightarrow> read_overlay_loop bin s sector dst i n =
     read_overlay_loop bin s (sector + 1)
       (take (i * SECTOR_SIZE) dst @ read_sector bin s sector @ drop (i * SECTOR_SIZE + SECTOR_SIZE) dst)
       (i + 1) n"
  by (subst read_overlay_loop.simps) (simp add: read_sector_def memcpy_def Let_def)

lemma read_loop_result:
  assumes "i \<le> n" "n * SECTOR_SIZE \<le> length dst"
      and "\<forall>j < n - i. length (read_sector bin s (sector + of_nat j)) = SECTOR_SIZE"
  shows "read_overlay_loop bin s sector dst i n
           = take (i * SECTOR_SIZE) dst
             @ concat (map (\<lambda>j. read_sector bin s (sector + of_nat j)) [0..<n - i])
             @ drop (n * SECTOR_SIZE) dst"
  using assms
proof (induction k \<equiv> "n - i" arbitrary: sector dst i)
  case 0
  then have "i = n" by simp
  then show ?case by (subst read_overlay_loop.simps) simp
next
  case (Suc k)
  from Suc.hyps(2) have lt: "i < n" and k: "k = n - (i + 1)" by simp_all
  let ?rs = "read_sector bin s sector"
  let ?dst = "take (i * SECTOR_SIZE) dst @ ?rs @ drop (i * SECTOR_SIZE + SECTOR_SIZE) dst"
  have rs: "length ?rs = SECTOR_SIZE"
    using Suc.prems(3) [rule_format, of 0] lt by simp
  from lt have "i + 1 \<le> n" by simp
  then have le: "(i + 1) * SECTOR_SIZE \<le> n * SECTOR_SIZE" by (rule mult_le_mono1)
  with Suc.prems(2) have le': "i * SECTOR_SIZE + SECTOR_SIZE \<le> length dst" by simp
  then have len: "length ?dst = length dst" using rs by simp
  have shift: "\<And>x. sector + 1 + of_nat x = sector + of_nat (Suc x)" by simp
  have pre: "\<forall>j < n - (i + 1). length (read_sector bin s (sector + 1 + of_nat j)) = SECTOR_SIZE"
  proof (intro allI impI)
    fix j assume "j < n - (i + 1)"
    then have "Suc j < n - i" by simp
    with Suc.prems(3) show "length (read_sector bin s (sector + 1 + of_nat j)) = SECTOR_SIZE"
      unfolding shift by blast
  qed
  have IH: "read_overlay_loop bin s (sector + 1) ?dst (i + 1) n
           = take ((i + 1) * SECTOR_SIZE) ?dst
             @ concat (map (\<lambda>j. read_sector bin s (sector + 1 + of_nat j)) [0..<k])
             @ drop (n * SECTOR_SIZE) ?dst"
    using Suc.hyps(1) [OF k _ _ pre, of ?dst] lt Suc.prems(2) len k by simp
  have t: "take ((i + 1) * SECTOR_SIZE) ?dst = take (i * SECTOR_SIZE) dst @ ?rs"
    using le' rs by simp
  have d: "drop (n * SECTOR_SIZE) ?dst = drop (n * SECTOR_SIZE) dst"
  proof -
    have "n * SECTOR_SIZE = (i * SECTOR_SIZE + SECTOR_SIZE) + (n * SECTOR_SIZE - (i + 1) * SECTOR_SIZE)"
      using le by simp
    then show ?thesis using le' rs lt
      by (simp add: drop_append)
  qed
  have m: "map (\<lambda>j. read_sector bin s (sector + of_nat j)) [0..<Suc k]
             = ?rs # map (\<lambda>j. read_sector bin s (sector + 1 + of_nat j)) [0..<k]"
    unfolding shift by (simp add: map_upt_Suc del: upt_Suc of_nat_Suc)
  show ?case
    unfolding read_loop_body [OF lt] IH t d Suc.hyps(2) [symmetric] m by simp
qed

subsection \<open>Sector numbers and their keys\<close>

lemma unat_sector_add:
  fixes address :: u32
  assumes "unat address + j < 2 ^ 32"
  shows "unat (address + of_nat j) = unat address + j"
proof -
  from assms have "j < 2 ^ 32" by simp
  then have "unat (of_nat j :: u32) = j" by (simp add: unat_of_nat)
  with assms show ?thesis by (simp add: unat_word_ariths)
qed

lemma unat_sector_times:
  fixes t :: u32
  assumes "unat t * 512 < 2 ^ 32"
  shows "unat (t * 512) = unat t * 512"
  using assms by (simp add: unat_word_ariths)

lemma sector_key:
  fixes t :: u32
  assumes "unat t < 65535"
  shows "(ucast t :: u16) \<noteq> 0xFFFF" and "unat (ucast t :: u16) = unat t"
proof -
  show u: "unat (ucast t :: u16) = unat t"
    using assms by (simp add: unat_ucast_u32_u16)
  show "(ucast t :: u16) \<noteq> 0xFFFF"
  proof
    assume "(ucast t :: u16) = 0xFFFF"
    then have "unat (ucast t :: u16) = 65535" by simp
    with u assms show False by simp
  qed
qed

lemma sector_key_inj:
  fixes t t' :: u32
  assumes "unat t < 65535" "unat t' < 65535" "(ucast t :: u16) = ucast t'"
  shows "t = t'"
proof -
  have "unat (ucast t :: u16) = unat (ucast t' :: u16)" using assms(3) by simp
  then have "unat t = unat t'" using sector_key(2) assms(1,2) by simp
  then show ?thesis by (rule word_unat_eq_iff [THEN iffD2])
qed

text \<open>The sectors of a request inside a store of at most 65535 sectors: their 16-bit
  keys are not the free marker and are pairwise different.\<close>

lemma request_keys:
  fixes address :: u32
  assumes "unat address + n \<le> unat sc" "unat (sc :: u32) \<le> 65535"
  shows "\<forall>j < n - 0. (ucast (address + of_nat j) :: u16) \<noteq> 0xFFFF"
    and "\<forall>j < n - 0. \<forall>j' < n - 0.
           (ucast (address + of_nat j) :: u16) = ucast (address + of_nat j') \<longrightarrow> j = j'"
proof -
  have u: "\<And>j. j < n \<Longrightarrow> unat (address + of_nat j) = unat address + j"
    using assms by (intro unat_sector_add) simp
  then have lt: "\<And>j. j < n \<Longrightarrow> unat (address + of_nat j) < 65535"
    using assms by simp
  show "\<forall>j < n - 0. (ucast (address + of_nat j) :: u16) \<noteq> 0xFFFF"
    using lt sector_key(1) by simp
  show "\<forall>j < n - 0. \<forall>j' < n - 0.
           (ucast (address + of_nat j) :: u16) = ucast (address + of_nat j') \<longrightarrow> j = j'"
  proof (intro allI impI)
    fix j j' assume a: "j < n - 0" "j' < n - 0"
      "(ucast (address + of_nat j) :: u16) = ucast (address + of_nat j')"
    then have "address + of_nat j = address + of_nat j'"
      using lt by (intro sector_key_inj) simp_all
    then have "unat (address + of_nat j) = unat (address + of_nat j')" by simp
    with u a show "j = j'" by simp
  qed
qed

lemma sd_inv_overlay:
  "sd_inv bin s \<Longrightarrow> g_img_ram s = None \<Longrightarrow> ov_inv s"
  by (simp add: sd_inv_def ov_inv_def)

lemma base_sector_length:
  assumes "sd_inv bin s" "t < g_sector_count s"
  shows "unat (t * 512) = unat t * SECTOR_SIZE"
    and "length (take SECTOR_SIZE (drop (unat (t * 512)) bin)) = SECTOR_SIZE"
proof -
  from assms(2) have lt: "unat t < unat (g_sector_count s)" by (simp add: word_less_nat_alt)
  then have "unat t * SECTOR_SIZE + SECTOR_SIZE \<le> unat (g_sector_count s) * SECTOR_SIZE"
    by (metis Suc_leI mult_Suc mult_le_mono1 add.commute)
  with assms(1) have b: "unat t * SECTOR_SIZE + SECTOR_SIZE \<le> length bin"
    "unat t * SECTOR_SIZE < 2 ^ 32"
    by (auto simp: sd_inv_def SECTOR_SIZE_def)
  then show u: "unat (t * 512) = unat t * SECTOR_SIZE"
    using unat_sector_times [of t] by (simp add: SECTOR_SIZE_def)
  show "length (take SECTOR_SIZE (drop (unat (t * 512)) bin)) = SECTOR_SIZE"
    unfolding u using b(1) by simp
qed

lemma read_sector_length:
  assumes "sd_inv bin s" "g_img_ram s = None" "t < g_sector_count s"
  shows "length (read_sector bin s t) = SECTOR_SIZE"
proof (cases "overlay_find s t = 0xFFFF")
  case True
  then show ?thesis using base_sector_length(2) [OF assms(1,3)] by (simp add: read_sector_def)
next
  case False
  from sd_inv_overlay [OF assms(1,2)] have inv: "ov_inv s" .
  then have len: "length (overlay_sector_id s) = MAX_OVERLAY_SECTORS" by (simp add: ov_inv_def)
  from False have "ucast t \<in> set (overlay_sector_id s)"
    using overlay_find_absent [OF len, of t] by simp
  from overlay_find_present [OF len this] obtain j where
    j: "j < MAX_OVERLAY_SECTORS" "overlay_find s t = of_nat j" by blast
  with inv have "length (overlay_sector_data s ! j) = SECTOR_SIZE"
    by (simp add: ov_inv_def)
  with j slot_word [OF j(1)] show ?thesis by (simp add: read_sector_def)
qed

lemma read_sector_absent:
  assumes "sd_inv bin s" "g_img_ram s = None" "t < g_sector_count s"
      and "ucast t \<notin> set (overlay_sector_id s)"
  shows "read_sector bin s t = take SECTOR_SIZE (drop (unat t * SECTOR_SIZE) bin)"
proof -
  from sd_inv_overlay [OF assms(1,2)] have "length (overlay_sector_id s) = MAX_OVERLAY_SECTORS"
    by (simp add: ov_inv_def)
  then have "overlay_find s t = 0xFFFF" using overlay_find_absent assms(4) by simp
  then show ?thesis using base_sector_length(1) [OF assms(1,3)] by (simp add: read_sector_def)
qed

lemma Read_overlay:
  assumes inv: "sd_inv bin s" and ov: "g_img_ram s = None"
      and range: "count \<noteq> 0" "unat address + unat count \<le> unat (g_sector_count s)"
      and dst: "length dst = unat count * SECTOR_SIZE"
  shows "Read_SD_sectors bin a s address count (Some dst)
           = (RES_OK, s, Some (concat (map (\<lambda>j. read_sector bin s (address + of_nat j))
                                          [0..<unat count])))"
proof -
  from inv have e: "ensure_sd_open bin a s = (True, s)"
    by (simp add: sd_inv_def ensure_ready)
  from range have "unat count \<noteq> 0" by (simp add: unat_eq_zero)
  with range(2) have a: "unat address < unat (g_sector_count s)" by simp
  with range(2) have ok: "\<not> g_sector_count s \<le> address
      \<and> \<not> g_sector_count s - address < ucast count"
    using range_ok_nat [of "g_sector_count s" address count] by simp
  have sc: "unat (g_sector_count s) < 2 ^ 32"
    using unsigned_less [of "g_sector_count s"] by simp
  have len: "\<forall>j < unat count - 0. length (read_sector bin s (address + of_nat j)) = SECTOR_SIZE"
  proof (intro allI impI)
    fix j assume j: "j < unat count - 0"
    with range(2) have "unat address + j < unat (g_sector_count s)" by simp
    moreover from this sc have "unat (address + of_nat j) = unat address + j"
      by (intro unat_sector_add) simp
    ultimately have "address + of_nat j < g_sector_count s" by (simp add: word_less_nat_alt)
    then show "length (read_sector bin s (address + of_nat j)) = SECTOR_SIZE"
      by (rule read_sector_length [OF inv ov])
  qed
  have "read_overlay_loop bin s address dst 0 (unat count)
          = concat (map (\<lambda>j. read_sector bin s (address + of_nat j)) [0..<unat count])"
    using read_loop_result [OF _ _ len, of dst] dst by simp
  with e ok range(1) ov show ?thesis by (simp add: Read_SD_sectors_def)
qed

lemma Read_one_overlay:
  assumes inv: "sd_inv bin s" and ov: "g_img_ram s = None"
      and t: "t < g_sector_count s" and dst: "length dst = SECTOR_SIZE"
  shows "Read_SD_sectors bin a s t 1 (Some dst) = (RES_OK, s, Some (read_sector bin s t))"
proof -
  from t have "unat t + unat (1 :: u16) \<le> unat (g_sector_count s)"
    by (simp add: word_less_nat_alt)
  from Read_overlay [OF inv ov _ this, of dst a] dst show ?thesis by simp
qed

subsection \<open>Reads and writes of an opened store\<close>

lemma Write_overlay:
  assumes inv: "sd_inv bin s" and ov: "g_img_ram s = None"
      and small: "unat (g_sector_count s) \<le> 65535"
      and range: "count \<noteq> 0" "unat address + unat count \<le> unat (g_sector_count s)"
      and src: "length src = unat count * SECTOR_SIZE"
  shows "\<exists>m s'. Write_SD_sectors bin a s address count (Some src)
                   = ((if m = unat count then RES_OK else RES_ERROR), s')
        \<and> m \<le> unat count \<and> sd_inv bin s' \<and> g_img_ram s' = None
        \<and> g_sector_count s' = g_sector_count s
        \<and> (\<forall>j < m. read_sector bin s' (address + of_nat j)
                       = take SECTOR_SIZE (drop (j * SECTOR_SIZE) src))
        \<and> (\<forall>t. t < g_sector_count s
               \<longrightarrow> unat t < unat address \<or> unat address + m \<le> unat t
               \<longrightarrow> read_sector bin s' t = read_sector bin s t
                   \<and> ((ucast t :: u16) \<in> set (overlay_sector_id s')
                        \<longleftrightarrow> (ucast t :: u16) \<in> set (overlay_sector_id s)))
        \<and> (m = unat count
             \<longleftrightarrow> length (filter (\<lambda>j. (ucast (address + of_nat j) :: u16) \<notin> set (overlay_sector_id s))
                           [0..<unat count])
                  \<le> count_list (overlay_sector_id s) 0xFFFF)
        \<and> (m < unat count \<longrightarrow> (ucast (address + of_nat m) :: u16) \<notin> set (overlay_sector_id s')
                                  \<and> 0xFFFF \<notin> set (overlay_sector_id s'))"
proof -
  let ?n = "unat count"
  from inv have e: "ensure_sd_open bin a s = (True, s)"
    by (simp add: sd_inv_def ensure_ready)
  from range have "?n \<noteq> 0" by (simp add: unat_eq_zero)
  with range(2) have "unat address < unat (g_sector_count s)" by simp
  with range(2) have ok: "\<not> g_sector_count s \<le> address
      \<and> \<not> g_sector_count s - address < ucast count"
    using range_ok_nat [of "g_sector_count s" address count] by simp
  have W: "Write_SD_sectors bin a s address count (Some src)
             = write_overlay_loop bin s address src 0 ?n"
    using e ok range(1) ov by (simp add: Write_SD_sectors_def)
  note keys = request_keys [OF range(2) small]
  from sd_inv_overlay [OF inv ov] have oinv: "ov_inv s" .
  have srcle: "?n * SECTOR_SIZE \<le> length src" using src by simp
  from write_loop_effect [OF oinv keys srcle, of bin]
  obtain m s' where
        res: "write_overlay_loop bin s address src 0 ?n
                = ((if m = ?n - 0 then RES_OK else RES_ERROR), s')"
    and m: "m \<le> ?n - 0" and inv': "ov_inv s'"
    and g: "g_img_ram s' = g_img_ram s" "g_img_size s' = g_img_size s"
           "g_sector_count s' = g_sector_count s" "g_sd_ready s' = g_sd_ready s"
    and wr: "\<forall>j < m. read_sector bin s' (address + of_nat j)
                       = take SECTOR_SIZE (drop ((0 + j) * SECTOR_SIZE) src)"
    and fr: "\<forall>t. (ucast t :: u16) \<noteq> 0xFFFF
               \<longrightarrow> (\<forall>j < m. (ucast t :: u16) \<noteq> ucast (address + of_nat j))
               \<longrightarrow> read_sector bin s' t = read_sector bin s t
                   \<and> ((ucast t :: u16) \<in> set (overlay_sector_id s')
                        \<longleftrightarrow> (ucast t :: u16) \<in> set (overlay_sector_id s))"
    and fu: "m < ?n - 0 \<longrightarrow> (ucast (address + of_nat m) :: u16) \<notin> set (overlay_sector_id s')
                           \<and> 0xFFFF \<notin> set (overlay_sector_id s')"
    by blast
  have sinv': "sd_inv bin s'"
    using inv inv' g ov by (simp add: sd_inv_def ov_inv_def)
  have u: "\<And>j. j < ?n \<Longrightarrow> unat (address + of_nat j) = unat address + j"
    using range(2) small by (intro unat_sector_add) simp
  have fr': "\<forall>t. t < g_sector_count s
               \<longrightarrow> unat t < unat address \<or> unat address + m \<le> unat t
               \<longrightarrow> read_sector bin s' t = read_sector bin s t
                   \<and> ((ucast t :: u16) \<in> set (overlay_sector_id s')
                        \<longleftrightarrow> (ucast t :: u16) \<in> set (overlay_sector_id s))"
  proof (intro allI impI)
    fix t :: u32
    assume t: "t < g_sector_count s" "unat t < unat address \<or> unat address + m \<le> unat t"
    from t(1) small have tl: "unat t < 65535" by (simp add: word_less_nat_alt)
    have "\<forall>j < m. (ucast t :: u16) \<noteq> ucast (address + of_nat j)"
    proof (intro allI impI notI)
      fix j assume j: "j < m" "(ucast t :: u16) = ucast (address + of_nat j)"
      with m have jn: "j < ?n" by simp
      then have "unat (address + of_nat j) < 65535" using u range(2) small by simp
      with tl j(2) have "t = address + of_nat j" by (intro sector_key_inj)
      then have "unat t = unat address + j" using u jn by simp
      with t(2) j(1) show False by simp
    qed
    with fr sector_key(1) [OF tl]
    show "read_sector bin s' t = read_sector bin s t
                   \<and> ((ucast t :: u16) \<in> set (overlay_sector_id s')
                        \<longleftrightarrow> (ucast t :: u16) \<in> set (overlay_sector_id s))" by blast
  qed
  have cnt: "m = ?n
             \<longleftrightarrow> length (filter (\<lambda>j. (ucast (address + of_nat j) :: u16) \<notin> set (overlay_sector_id s))
                           [0..<?n])
                  \<le> count_list (overlay_sector_id s) 0xFFFF"
    using write_loop_ok_iff [OF oinv keys srcle, of bin] res by (simp split: if_splits)
  show ?thesis
    using W res m sinv' g(1,3) ov wr fr' cnt fu
    by (intro exI [of _ m] exI [of _ s']) simp
qed

lemma Write_full_copy:
  assumes inv: "sd_inv bin s" and ram: "g_img_ram s = Some ram"
      and range: "count \<noteq> 0" "unat address + unat count \<le> unat (g_sector_count s)"
      and src: "length src = unat count * SECTOR_SIZE"
  shows "Write_SD_sectors bin a s address count (Some src)
           = (RES_OK, s\<lparr> g_img_ram := Some (take (unat address * SECTOR_SIZE) ram @ src
                 @ drop (unat address * SECTOR_SIZE + unat count * SECTOR_SIZE) ram) \<rparr>)"
proof -
  from inv have e: "ensure_sd_open bin a s = (True, s)"
    by (simp add: sd_inv_def ensure_ready)
  from range have "unat count \<noteq> 0" by (simp add: unat_eq_zero)
  with range(2) have lt: "unat address < unat (g_sector_count s)" by simp
  with range(2) have ok: "\<not> g_sector_count s \<le> address
      \<and> \<not> g_sector_count s - address < ucast count"
    using range_ok_nat [of "g_sector_count s" address count] by simp
  from lt have "address < g_sector_count s" by (simp add: word_less_nat_alt)
  from base_sector_length(1) [OF inv this]
  have off: "unat (address * 512) = unat address * SECTOR_SIZE" .
  show ?thesis
    using e ok range(1) ram src by (simp add: Write_SD_sectors_def memcpy_def off)
qed

lemma Read_full_copy:
  assumes inv: "sd_inv bin s" and ram: "g_img_ram s = Some ram"
      and range: "count \<noteq> 0" "unat address + unat count \<le> unat (g_sector_count s)"
      and dst: "length dst = unat count * SECTOR_SIZE"
  shows "Read_SD_sectors bin a s address count (Some dst)
           = (RES_OK, s, Some (take (unat count * SECTOR_SIZE) (drop (unat address * SECTOR_SIZE) ram)))"
proof -
  from inv have e: "ensure_sd_open bin a s = (True, s)"
    by (simp add: sd_inv_def ensure_ready)
  from range have "unat count \<noteq> 0" by (simp add: unat_eq_zero)
  with range(2) have lt: "unat address < unat (g_sector_count s)" by simp
  with range(2) have ok: "\<not> g_sector_count s \<le> address
      \<and> \<not> g_sector_count s - address < ucast count"
    using range_ok_nat [of "g_sector_count s" address count] by simp
  from lt have "address < g_sector_count s" by (simp add: word_less_nat_alt)
  from base_sector_length(1) [OF inv this]
  have off: "unat (address * 512) = unat address * SECTOR_SIZE" .
  show ?thesis
    using e ok range(1) ram dst by (simp add: Read_SD_sectors_def memcpy_def off)
qed

subsection \<open>Opening the store\<close>

lemma usable_size:
  fixes sz :: u32
  shows "unat ((sz - sz mod 512) div 512) * 512 = unat (sz - sz mod 512)"
    and "unat (sz - sz mod 512) \<le> unat sz"
proof -
  have m: "unat (sz mod 512) = unat sz mod 512" by (simp add: unat_mod)
  then have le: "sz mod 512 \<le> sz" by (simp add: word_le_nat_alt)
  have u: "unat (sz - sz mod 512) = unat sz - unat sz mod 512"
    using unat_sub [OF le] m by simp
  then show "unat (sz - sz mod 512) \<le> unat sz" by simp
  have "unat ((sz - sz mod 512) div 512) = unat (sz - sz mod 512) div 512"
    by (simp add: unat_div)
  moreover have "(unat sz - unat sz mod 512) mod 512 = 0"
    by (metis minus_mod_eq_mult_div mod_mult_self1_is_0)
  ultimately show "unat ((sz - sz mod 512) div 512) * 512 = unat (sz - sz mod 512)"
    using u by (simp add: mod_eq_0_iff_dvd)
qed

text \<open>The first call of \<^verbatim>\<open>ensure_sd_open\<close> on a non-empty image gives an opened store.\<close>

lemma ensure_sd_open_initial:
  assumes "bin \<noteq> []"
  shows "fst (ensure_sd_open bin a sd_initial)"
    and "sd_inv bin (snd (ensure_sd_open bin a sd_initial))"
    and "g_sector_count (snd (ensure_sd_open bin a sd_initial))
           = ((of_nat (length bin) :: u32) - of_nat (length bin) mod 512) div 512"
    and "\<not> a \<Longrightarrow> g_img_ram (snd (ensure_sd_open bin a sd_initial)) = None"
    and "\<not> a \<Longrightarrow> overlay_sector_id (snd (ensure_sd_open bin a sd_initial))
                   = replicate MAX_OVERLAY_SECTORS 0xFFFF"
    and "\<not> a \<Longrightarrow> overlay_sector_data (snd (ensure_sd_open bin a sd_initial))
                   = replicate MAX_OVERLAY_SECTORS (replicate SECTOR_SIZE 0)"
proof -
  let ?sz = "of_nat (length bin) :: u32"
  let ?us = "?sz - ?sz mod 512"
  have a1: "unat (?us div 512) * 512 = unat ?us" by (rule usable_size(1))
  have "unat ?sz \<le> length bin" by (simp add: unat_of_nat)
  with usable_size(2) [of ?sz] have a2: "unat ?us \<le> length bin" by simp
  have a3: "unat ?us < 2 ^ 32" using unsigned_less [of ?us] by simp
  show "fst (ensure_sd_open bin a sd_initial)"
    using assms by (simp add: ensure_sd_open_def sd_initial_def Let_def)
  show "sd_inv bin (snd (ensure_sd_open bin a sd_initial))"
    using assms a1 a2 a3
    by (simp add: ensure_sd_open_def sd_initial_def Let_def sd_inv_def overlay_init_def
        memcpy_def SECTOR_SIZE_def)
  show "g_sector_count (snd (ensure_sd_open bin a sd_initial)) = ?us div 512"
    using assms by (simp add: ensure_sd_open_def sd_initial_def Let_def overlay_init_def)
  show "\<not> a \<Longrightarrow> g_img_ram (snd (ensure_sd_open bin a sd_initial)) = None"
    using assms by (simp add: ensure_sd_open_def sd_initial_def Let_def overlay_init_def)
  show "\<not> a \<Longrightarrow> overlay_sector_id (snd (ensure_sd_open bin a sd_initial))
                   = replicate MAX_OVERLAY_SECTORS 0xFFFF"
    using assms by (simp add: ensure_sd_open_def sd_initial_def Let_def overlay_init_def)
  show "\<not> a \<Longrightarrow> overlay_sector_data (snd (ensure_sd_open bin a sd_initial))
                   = replicate MAX_OVERLAY_SECTORS (replicate SECTOR_SIZE 0)"
    using assms by (simp add: ensure_sd_open_def sd_initial_def Let_def overlay_init_def)
qed

lemma count_list_replicate: "count_list (replicate n x) x = n"
  by (induction n) simp_all

subsection \<open>The store of 66048 sectors\<close>






lemma read_sector_cases:
  assumes inv: "sd_inv bin s" and ov: "g_img_ram s = None" and t: "t < g_sector_count s"
  shows "read_sector bin s t =
           (if ucast t \<in> set (overlay_sector_id s)
            then overlay_sector_data s ! unat (overlay_find s t)
            else take SECTOR_SIZE (drop (unat t * SECTOR_SIZE) bin))"
proof (cases "ucast t \<in> set (overlay_sector_id s)")
  case False
  then show ?thesis using read_sector_absent [OF inv ov t] by simp
next
  case True
  from sd_inv_overlay [OF inv ov] have oinv: "ov_inv s" .
  then have len: "length (overlay_sector_id s) = MAX_OVERLAY_SECTORS" by (simp add: ov_inv_def)
  from overlay_find_present [OF len True] obtain j where
    j: "j < MAX_OVERLAY_SECTORS" "overlay_find s t = of_nat j" by blast
  with oinv have "length (overlay_sector_data s ! j) = SECTOR_SIZE"
    by (simp add: ov_inv_def)
  with j slot_word [OF j(1)] True show ?thesis by (simp add: read_sector_def)
qed



subsection \<open>Filling the overlay\<close>







lemma full_overlay_inv:
  "sd_inv bin s \<Longrightarrow> g_img_ram s = None \<Longrightarrow> sd_inv bin (full_overlay s)"
  by (simp add: sd_inv_def full_overlay_def)

lemma key_in_full:
  fixes k :: u16
  shows "k \<in> set (map of_nat [0..<MAX_OVERLAY_SECTORS]) \<longleftrightarrow> unat k < MAX_OVERLAY_SECTORS"
proof
  assume "k \<in> set (map of_nat [0..<MAX_OVERLAY_SECTORS])"
  then obtain j where "j < MAX_OVERLAY_SECTORS" "k = of_nat j" by auto
  with slot_word [of j] show "unat k < MAX_OVERLAY_SECTORS" by simp
next
  assume "unat k < MAX_OVERLAY_SECTORS"
  moreover have "k = of_nat (unat k)" by simp
  ultimately show "k \<in> set (map of_nat [0..<MAX_OVERLAY_SECTORS])"
    by (metis atLeastLessThan_iff image_eqI le0 set_map set_upt)
qed








section \<open>Claims about the sector store\<close>

text \<open>
  The round trip where the overlay keys are sound. In an opened store, for every
  range that passes the checks of the driver (a non-zero count, \<open>address + count\<close> within the sector count), with a
  source and a destination of \<open>count\<close> sectors: on the mutable copy the write returns
  \<^verbatim>\<open>RES_OK\<close>; on the overlay it returns \<^verbatim>\<open>RES_OK\<close> exactly when the free slots suffice
  for the sectors of the request that have no slot yet; and whenever it returns
  \<^verbatim>\<open>RES_OK\<close>, reading the same range gives the source back byte for byte. On the
  overlay this is shown for a store of at most 65535 sectors, where every sector
  number is its own 16-bit key and none is the free marker \<^verbatim>\<open>0xFFFF\<close>.
\<close>

theorem write_then_read:
  assumes inv: "sd_inv bin s"
      and range: "count \<noteq> 0" "unat address + unat count \<le> unat (g_sector_count s)"
      and src: "length src = unat count * SECTOR_SIZE"
      and dst: "length dst = unat count * SECTOR_SIZE"
      and small: "g_img_ram s = None \<Longrightarrow> unat (g_sector_count s) \<le> 65535"
  shows "(g_img_ram s \<noteq> None
            \<longrightarrow> fst (Write_SD_sectors bin a s address count (Some src)) = RES_OK)
       \<and> (g_img_ram s = None
            \<longrightarrow> (fst (Write_SD_sectors bin a s address count (Some src)) = RES_OK
                 \<longleftrightarrow> length (filter (\<lambda>j. (ucast (address + of_nat j) :: u16)
                                              \<notin> set (overlay_sector_id s)) [0..<unat count])
                      \<le> count_list (overlay_sector_id s) 0xFFFF))
       \<and> (fst (Write_SD_sectors bin a s address count (Some src)) = RES_OK
            \<longrightarrow> Read_SD_sectors bin a (snd (Write_SD_sectors bin a s address count (Some src)))
                   address count (Some dst)
                 = (RES_OK, snd (Write_SD_sectors bin a s address count (Some src)), Some src))"
proof (cases "g_img_ram s")
  case (Some ram)
  let ?off = "unat address * SECTOR_SIZE"
  let ?ram = "take ?off ram @ src @ drop (?off + unat count * SECTOR_SIZE) ram"
  let ?s = "s\<lparr> g_img_ram := Some ?ram \<rparr>"
  have W: "Write_SD_sectors bin a s address count (Some src) = (RES_OK, ?s)"
    by (rule Write_full_copy [OF inv Some range src])
  from inv Some have lr: "length ram = unat (g_sector_count s) * SECTOR_SIZE"
    by (simp add: sd_inv_def)
  from range(2) have "(unat address + unat count) * SECTOR_SIZE \<le> unat (g_sector_count s) * SECTOR_SIZE"
    by (rule mult_le_mono1)
  with lr have le: "?off + unat count * SECTOR_SIZE \<le> length ram"
    by (simp add: add_mult_distrib)
  then have lr': "length ?ram = length ram" using src by simp
  have inv': "sd_inv bin ?s"
    using inv Some lr' by (simp add: sd_inv_def)
  have "Read_SD_sectors bin a ?s address count (Some dst)
          = (RES_OK, ?s, Some (take (unat count * SECTOR_SIZE) (drop ?off ?ram)))"
    by (rule Read_full_copy [OF inv' _ _ _ dst]) (use range in simp_all)
  moreover have "take (unat count * SECTOR_SIZE) (drop ?off ?ram) = src"
    using le src by simp
  ultimately show ?thesis using W Some by simp
next
  case None
  note small' = small [OF None]
  from Write_overlay [OF inv None small' range src, of a]
  obtain m s' where
        W: "Write_SD_sectors bin a s address count (Some src)
                   = ((if m = unat count then RES_OK else RES_ERROR), s')"
    and inv': "sd_inv bin s'" and ov': "g_img_ram s' = None"
    and sc: "g_sector_count s' = g_sector_count s"
    and wr: "\<forall>j < m. read_sector bin s' (address + of_nat j)
                       = take SECTOR_SIZE (drop (j * SECTOR_SIZE) src)"
    and cnt: "m = unat count
             \<longleftrightarrow> length (filter (\<lambda>j. (ucast (address + of_nat j) :: u16) \<notin> set (overlay_sector_id s))
                           [0..<unat count])
                  \<le> count_list (overlay_sector_id s) 0xFFFF"
    by blast
  show ?thesis
  proof (cases "m = unat count")
    case True
    have "Read_SD_sectors bin a s' address count (Some dst)
           = (RES_OK, s', Some (concat (map (\<lambda>j. read_sector bin s' (address + of_nat j))
                                          [0..<unat count])))"
      by (rule Read_overlay [OF inv' ov' range(1) _ dst]) (use range(2) sc in simp)
    moreover have "map (\<lambda>j. read_sector bin s' (address + of_nat j)) [0..<unat count]
                 = map (\<lambda>j. take SECTOR_SIZE (drop (j * SECTOR_SIZE) src)) [0..<unat count]"
      using wr True by simp
    moreover have "concat (map (\<lambda>j. take SECTOR_SIZE (drop (j * SECTOR_SIZE) src)) [0..<unat count]) = src"
      using concat_chunks_take [of SECTOR_SIZE src "unat count"] src by simp
    ultimately show ?thesis using W True None cnt by simp
  next
    case False
    with W None cnt show ?thesis by simp
  qed
qed

theorem write_then_read_witness:
  "Read_SD_sectors (replicate 2048 7) False
     (snd (Write_SD_sectors (replicate 2048 7) False
             (snd (ensure_sd_open (replicate 2048 7) False sd_initial)) 1 2
             (Some (replicate 512 1 @ replicate 512 2))))
     1 2 (Some (replicate 1024 0))
   = (RES_OK,
      snd (Write_SD_sectors (replicate 2048 7) False
             (snd (ensure_sd_open (replicate 2048 7) False sd_initial)) 1 2
             (Some (replicate 512 1 @ replicate 512 2))),
      Some (replicate 512 1 @ replicate 512 2))"
proof -
  let ?bin = "replicate 2048 (7 :: u8)"
  let ?s = "snd (ensure_sd_open ?bin False sd_initial)"
  let ?src = "replicate 512 (1 :: u8) @ replicate 512 2"
  have ne: "?bin \<noteq> []" by simp
  have inv: "sd_inv ?bin ?s" by (rule ensure_sd_open_initial(2) [OF ne])
  have sc: "g_sector_count ?s = 4"
    using ensure_sd_open_initial(3) [OF ne, of False] by simp
  have ov: "g_img_ram ?s = None" by (rule ensure_sd_open_initial(4) [OF ne]) simp
  have ids: "overlay_sector_id ?s = replicate MAX_OVERLAY_SECTORS 0xFFFF"
    by (rule ensure_sd_open_initial(5) [OF ne]) simp
  have r1: "(2 :: u16) \<noteq> 0" by simp
  have r2: "unat (1 :: u32) + unat (2 :: u16) \<le> unat (g_sector_count ?s)" by (simp add: sc)
  have l1: "length ?src = unat (2 :: u16) * SECTOR_SIZE" by (simp add: SECTOR_SIZE_def)
  have l2: "length (replicate 1024 (0 :: u8)) = unat (2 :: u16) * SECTOR_SIZE"
    by (simp add: SECTOR_SIZE_def)
  have sm: "g_img_ram ?s = None \<Longrightarrow> unat (g_sector_count ?s) \<le> 65535" by (simp add: sc)
  have fit: "length (filter (\<lambda>j. (ucast ((1 :: u32) + of_nat j) :: u16)
                                              \<notin> set (overlay_sector_id ?s)) [0..<unat (2 :: u16)])
                      \<le> count_list (overlay_sector_id ?s) 0xFFFF"
  proof -
    have "length (filter (\<lambda>j. (ucast ((1 :: u32) + of_nat j) :: u16)
                                \<notin> set (overlay_sector_id ?s)) [0..<unat (2 :: u16)])
            \<le> length [0..<unat (2 :: u16)]"
      by (rule length_filter_le)
    then show ?thesis
      unfolding ids count_list_replicate by (simp add: MAX_OVERLAY_SECTORS_def)
  qed
  from write_then_read [OF inv r1 r2 l1 l2 sm, of False] ov fit
  show ?thesis by blast
qed


text \<open>
  The frame of a write where the overlay keys are sound. On the overlay of an opened
  store of at most 65535 sectors, after a write of any valid range (whether it ends with \<^verbatim>\<open>RES_OK\<close> or runs out of
  slots), a valid sector \<open>t\<close> outside the range that has no entry in the overlay reads
  as the sector of the embedded image. And, for a store of any size, a read resolves
  every sector of its range on its own: the payload of the slot \<^verbatim>\<open>overlay_find\<close> gives
  when the table holds the key of the sector, the sector of the image otherwise.
\<close>

theorem overlay_read_resolution:
  assumes inv: "sd_inv bin s" and ov: "g_img_ram s = None"
      and range: "count \<noteq> 0" "unat address + unat count \<le> unat (g_sector_count s)"
      and src: "length src = unat count * SECTOR_SIZE"
      and t: "t < g_sector_count s"
             "unat t < unat address \<or> unat address + unat count \<le> unat t"
             "ucast t \<notin> set (overlay_sector_id s)"
      and dst: "length dst = SECTOR_SIZE"
      and rrange: "cnt \<noteq> 0" "unat addr + unat cnt \<le> unat (g_sector_count s)"
      and buf: "length buf = unat cnt * SECTOR_SIZE"
  shows "(unat (g_sector_count s) \<le> 65535 \<longrightarrow>
           Read_SD_sectors bin a (snd (Write_SD_sectors bin a s address count (Some src))) t 1 (Some dst)
             = (RES_OK, snd (Write_SD_sectors bin a s address count (Some src)),
                Some (take SECTOR_SIZE (drop (unat t * SECTOR_SIZE) bin))))
       \<and> Read_SD_sectors bin a s addr cnt (Some buf)
           = (RES_OK, s,
              Some (concat (map (\<lambda>j. if ucast (addr + of_nat j) \<in> set (overlay_sector_id s)
                                      then overlay_sector_data s ! unat (overlay_find s (addr + of_nat j))
                                      else take SECTOR_SIZE
                                             (drop (unat (addr + of_nat j) * SECTOR_SIZE) bin))
                                [0..<unat cnt])))"
proof
  show "unat (g_sector_count s) \<le> 65535 \<longrightarrow>
           Read_SD_sectors bin a (snd (Write_SD_sectors bin a s address count (Some src))) t 1 (Some dst)
             = (RES_OK, snd (Write_SD_sectors bin a s address count (Some src)),
                Some (take SECTOR_SIZE (drop (unat t * SECTOR_SIZE) bin)))"
  proof
    assume small: "unat (g_sector_count s) \<le> 65535"
    from Write_overlay [OF inv ov small range src, of a]
    obtain m s' where
          W: "Write_SD_sectors bin a s address count (Some src)
                     = ((if m = unat count then RES_OK else RES_ERROR), s')"
      and m: "m \<le> unat count"
      and inv': "sd_inv bin s'" and ov': "g_img_ram s' = None"
      and sc: "g_sector_count s' = g_sector_count s"
      and fr: "\<forall>t. t < g_sector_count s
               \<longrightarrow> unat t < unat address \<or> unat address + m \<le> unat t
               \<longrightarrow> read_sector bin s' t = read_sector bin s t
                   \<and> ((ucast t :: u16) \<in> set (overlay_sector_id s')
                        \<longleftrightarrow> (ucast t :: u16) \<in> set (overlay_sector_id s))"
      by blast
    from t(2) m have "unat t < unat address \<or> unat address + m \<le> unat t" by auto
    with fr t(1) have "read_sector bin s' t = read_sector bin s t" by blast
    also have "\<dots> = take SECTOR_SIZE (drop (unat t * SECTOR_SIZE) bin)"
      by (rule read_sector_absent [OF inv ov t(1) t(3)])
    finally have rs: "read_sector bin s' t = take SECTOR_SIZE (drop (unat t * SECTOR_SIZE) bin)" .
    from t(1) sc have t': "t < g_sector_count s'" by simp
    show "Read_SD_sectors bin a (snd (Write_SD_sectors bin a s address count (Some src))) t 1 (Some dst)
             = (RES_OK, snd (Write_SD_sectors bin a s address count (Some src)),
                Some (take SECTOR_SIZE (drop (unat t * SECTOR_SIZE) bin)))"
      using Read_one_overlay [OF inv' ov' t' dst, of a] rs W by simp
  qed
next
  have sc: "unat (g_sector_count s) < 2 ^ 32"
    using unsigned_less [of "g_sector_count s"] by simp
  have "map (\<lambda>j. read_sector bin s (addr + of_nat j)) [0..<unat cnt]
      = map (\<lambda>j. if ucast (addr + of_nat j) \<in> set (overlay_sector_id s)
                                      then overlay_sector_data s ! unat (overlay_find s (addr + of_nat j))
                                      else take SECTOR_SIZE
                                             (drop (unat (addr + of_nat j) * SECTOR_SIZE) bin))
                                [0..<unat cnt]"
  proof (rule map_cong [OF refl])
    fix j assume "j \<in> set [0..<unat cnt]"
    then have j: "j < unat cnt" by simp
    with rrange(2) have "unat addr + j < unat (g_sector_count s)" by simp
    moreover from this sc have "unat (addr + of_nat j) = unat addr + j"
      by (intro unat_sector_add) simp
    ultimately have "addr + of_nat j < g_sector_count s" by (simp add: word_less_nat_alt)
    then show "read_sector bin s (addr + of_nat j)
       = (if ucast (addr + of_nat j) \<in> set (overlay_sector_id s)
                                      then overlay_sector_data s ! unat (overlay_find s (addr + of_nat j))
                                      else take SECTOR_SIZE
                                             (drop (unat (addr + of_nat j) * SECTOR_SIZE) bin))"
      by (rule read_sector_cases [OF inv ov])
  qed
  then show "Read_SD_sectors bin a s addr cnt (Some buf)
           = (RES_OK, s,
              Some (concat (map (\<lambda>j. if ucast (addr + of_nat j) \<in> set (overlay_sector_id s)
                                      then overlay_sector_data s ! unat (overlay_find s (addr + of_nat j))
                                      else take SECTOR_SIZE
                                             (drop (unat (addr + of_nat j) * SECTOR_SIZE) bin))
                                [0..<unat cnt])))"
    by (simp only: Read_overlay [OF inv ov rrange buf])
qed

theorem overlay_read_resolution_witness:
  "Read_SD_sectors (replicate 2048 7) False
     (snd (Write_SD_sectors (replicate 2048 7) False
             (snd (ensure_sd_open (replicate 2048 7) False sd_initial)) 1 2
             (Some (replicate 512 1 @ replicate 512 2))))
     0 1 (Some (replicate 512 0))
   = (RES_OK,
      snd (Write_SD_sectors (replicate 2048 7) False
             (snd (ensure_sd_open (replicate 2048 7) False sd_initial)) 1 2
             (Some (replicate 512 1 @ replicate 512 2))),
      Some (replicate 512 7))"
proof -
  let ?bin = "replicate 2048 (7 :: u8)"
  let ?s = "snd (ensure_sd_open ?bin False sd_initial)"
  let ?src = "replicate 512 (1 :: u8) @ replicate 512 2"
  have ne: "?bin \<noteq> []" by simp
  have inv: "sd_inv ?bin ?s" by (rule ensure_sd_open_initial(2) [OF ne])
  have sc: "g_sector_count ?s = 4"
    using ensure_sd_open_initial(3) [OF ne, of False] by simp
  have ov: "g_img_ram ?s = None" by (rule ensure_sd_open_initial(4) [OF ne]) simp
  have ids: "overlay_sector_id ?s = replicate MAX_OVERLAY_SECTORS 0xFFFF"
    by (rule ensure_sd_open_initial(5) [OF ne]) simp
  have r1: "(2 :: u16) \<noteq> 0" by simp
  have r2: "unat (1 :: u32) + unat (2 :: u16) \<le> unat (g_sector_count ?s)" by (simp add: sc)
  have l1: "length ?src = unat (2 :: u16) * SECTOR_SIZE" by (simp add: SECTOR_SIZE_def)
  have t1: "(0 :: u32) < g_sector_count ?s" by (simp add: sc)
  have t2: "unat (0 :: u32) < unat (1 :: u32) \<or> unat (1 :: u32) + unat (2 :: u16) \<le> unat (0 :: u32)"
    by simp
  have t3: "(ucast (0 :: u32) :: u16) \<notin> set (overlay_sector_id ?s)"
    unfolding ids by (simp add: MAX_OVERLAY_SECTORS_def)
  have l2: "length (replicate 512 (0 :: u8)) = SECTOR_SIZE" by (simp add: SECTOR_SIZE_def)
  have l3: "length (replicate 1024 (0 :: u8)) = unat (2 :: u16) * SECTOR_SIZE"
    by (simp add: SECTOR_SIZE_def)
  have sm: "unat (g_sector_count ?s) \<le> 65535" by (simp add: sc)
  from overlay_read_resolution [OF inv ov r1 r2 l1 t1 t2 t3 l2 r1 r2 l3, of False] sm
  show ?thesis by (simp add: SECTOR_SIZE_def)
qed


text \<open>
  Running out of slots where the overlay keys are sound. On the overlay of an opened
  store of at most 65535 sectors, when the sectors of a valid request that have no slot yet outnumber the free slots,
  the write returns \<^verbatim>\<open>RES_ERROR\<close> after \<open>m\<close> sectors, \<open>m\<close> below the count: the table
  is then full and sector \<open>address + m\<close> has no entry; each of the \<open>m\<close> sectors before it
  reads as the source gave it (no rollback); and every other valid sector, among them
  every sector written earlier, reads as it did before the call.
\<close>

theorem overlay_exhaustion:
  assumes inv: "sd_inv bin s" and ov: "g_img_ram s = None"
      and small: "unat (g_sector_count s) \<le> 65535"
      and range: "count \<noteq> 0" "unat address + unat count \<le> unat (g_sector_count s)"
      and src: "length src = unat count * SECTOR_SIZE"
      and exhausted:
        "count_list (overlay_sector_id s) 0xFFFF
           < length (filter (\<lambda>j. (ucast (address + of_nat j) :: u16) \<notin> set (overlay_sector_id s))
                       [0..<unat count])"
  shows "\<exists>m s'. Write_SD_sectors bin a s address count (Some src) = (RES_ERROR, s')
          \<and> m < unat count
          \<and> (ucast (address + of_nat m) :: u16) \<notin> set (overlay_sector_id s')
          \<and> 0xFFFF \<notin> set (overlay_sector_id s')
          \<and> (\<forall>j dst. j < m \<and> length dst = SECTOR_SIZE \<longrightarrow>
                 Read_SD_sectors bin a s' (address + of_nat j) 1 (Some dst)
                   = (RES_OK, s', Some (take SECTOR_SIZE (drop (j * SECTOR_SIZE) src))))
          \<and> (\<forall>t dst. t < g_sector_count s
                 \<and> (unat t < unat address \<or> unat address + m \<le> unat t)
                 \<and> length dst = SECTOR_SIZE \<longrightarrow>
                 Read_SD_sectors bin a s' t 1 (Some dst)
                   = (RES_OK, s', snd (snd (Read_SD_sectors bin a s t 1 (Some dst)))))"
proof -
  from Write_overlay [OF inv ov small range src, of a]
  obtain m s' where
        W: "Write_SD_sectors bin a s address count (Some src)
                   = ((if m = unat count then RES_OK else RES_ERROR), s')"
    and m: "m \<le> unat count"
    and inv': "sd_inv bin s'" and ov': "g_img_ram s' = None"
    and sc: "g_sector_count s' = g_sector_count s"
    and wr: "\<forall>j < m. read_sector bin s' (address + of_nat j)
                       = take SECTOR_SIZE (drop (j * SECTOR_SIZE) src)"
    and fr: "\<forall>t. t < g_sector_count s
               \<longrightarrow> unat t < unat address \<or> unat address + m \<le> unat t
               \<longrightarrow> read_sector bin s' t = read_sector bin s t
                   \<and> ((ucast t :: u16) \<in> set (overlay_sector_id s')
                        \<longleftrightarrow> (ucast t :: u16) \<in> set (overlay_sector_id s))"
    and cnt: "m = unat count
             \<longleftrightarrow> length (filter (\<lambda>j. (ucast (address + of_nat j) :: u16) \<notin> set (overlay_sector_id s))
                           [0..<unat count])
                  \<le> count_list (overlay_sector_id s) 0xFFFF"
    and fu: "m < unat count \<longrightarrow> (ucast (address + of_nat m) :: u16) \<notin> set (overlay_sector_id s')
                                  \<and> 0xFFFF \<notin> set (overlay_sector_id s')"
    by blast
  from cnt exhausted have ne: "m \<noteq> unat count" by simp
  with m have lt: "m < unat count" by simp
  have W': "Write_SD_sectors bin a s address count (Some src) = (RES_ERROR, s')"
    using W ne by simp
  have u: "\<And>j. j < unat count \<Longrightarrow> unat (address + of_nat j) = unat address + j"
    using range(2) small by (intro unat_sector_add) simp
  have written: "\<forall>j dst. j < m \<and> length dst = SECTOR_SIZE \<longrightarrow>
                 Read_SD_sectors bin a s' (address + of_nat j) 1 (Some dst)
                   = (RES_OK, s', Some (take SECTOR_SIZE (drop (j * SECTOR_SIZE) src)))"
  proof (intro allI impI)
    fix j and dst :: "u8 list" assume j: "j < m \<and> length dst = SECTOR_SIZE"
    with lt have "j < unat count" by simp
    with u range(2) have "unat (address + of_nat j) < unat (g_sector_count s)" by simp
    with sc have v: "address + of_nat j < g_sector_count s'" by (simp add: word_less_nat_alt)
    from j have d: "length dst = SECTOR_SIZE" by simp
    show "Read_SD_sectors bin a s' (address + of_nat j) 1 (Some dst)
                   = (RES_OK, s', Some (take SECTOR_SIZE (drop (j * SECTOR_SIZE) src)))"
      using Read_one_overlay [OF inv' ov' v d, of a] wr j by simp
  qed
  have others: "\<forall>t dst. t < g_sector_count s
                 \<and> (unat t < unat address \<or> unat address + m \<le> unat t)
                 \<and> length dst = SECTOR_SIZE \<longrightarrow>
                 Read_SD_sectors bin a s' t 1 (Some dst)
                   = (RES_OK, s', snd (snd (Read_SD_sectors bin a s t 1 (Some dst))))"
  proof (intro allI impI)
    fix t and dst :: "u8 list"
    assume a: "t < g_sector_count s
                 \<and> (unat t < unat address \<or> unat address + m \<le> unat t)
                 \<and> length dst = SECTOR_SIZE"
    then have t: "t < g_sector_count s" and d: "length dst = SECTOR_SIZE" by simp_all
    from t sc have t': "t < g_sector_count s'" by simp
    from fr a have "read_sector bin s' t = read_sector bin s t" by blast
    then show "Read_SD_sectors bin a s' t 1 (Some dst)
                   = (RES_OK, s', snd (snd (Read_SD_sectors bin a s t 1 (Some dst))))"
      using Read_one_overlay [OF inv' ov' t' d, of a] Read_one_overlay [OF inv ov t d, of a]
      by simp
  qed
  show ?thesis
    using W' lt fu written others
    by (intro exI [of _ m] exI [of _ s']) blast
qed

theorem overlay_exhaustion_witness:
  "fst (Write_SD_sectors (replicate 153600 7) False
          (full_overlay (snd (ensure_sd_open (replicate 153600 7) False sd_initial)))
          255 2 (Some (replicate 512 1 @ replicate 512 2)))
   = RES_ERROR"
proof -
  let ?bin = "replicate 153600 (7 :: u8)"
  let ?fresh = "snd (ensure_sd_open ?bin False sd_initial)"
  let ?s = "full_overlay ?fresh"
  let ?src = "replicate 512 (1 :: u8) @ replicate 512 2"
  have ne: "?bin \<noteq> []" by simp
  have inv0: "sd_inv ?bin ?fresh" by (rule ensure_sd_open_initial(2) [OF ne])
  have ov0: "g_img_ram ?fresh = None" by (rule ensure_sd_open_initial(4) [OF ne]) simp
  have sc0: "g_sector_count ?fresh = 300"
    using ensure_sd_open_initial(3) [OF ne, of False] by simp
  have inv: "sd_inv ?bin ?s" using inv0 ov0 by (rule full_overlay_inv)
  have ov: "g_img_ram ?s = None" using ov0 by (simp add: full_overlay_def)
  have sc: "g_sector_count ?s = 300" using sc0 by (simp add: full_overlay_def)
  have ids: "overlay_sector_id ?s = map of_nat [0..<MAX_OVERLAY_SECTORS]"
    by (simp add: full_overlay_def)
  have sm: "unat (g_sector_count ?s) \<le> 65535" by (simp add: sc)
  have r1: "(2 :: u16) \<noteq> 0" by simp
  have r2: "unat (255 :: u32) + unat (2 :: u16) \<le> unat (g_sector_count ?s)" by (simp add: sc)
  have l1: "length ?src = unat (2 :: u16) * SECTOR_SIZE" by (simp add: SECTOR_SIZE_def)
  have free: "count_list (overlay_sector_id ?s) 0xFFFF = 0"
    unfolding ids count_list_0_iff key_in_full by (simp add: MAX_OVERLAY_SECTORS_def)
  have two: "[0..<unat (2 :: u16)] = [0, 1]" by (simp add: upt_rec)
  have need: "length (filter (\<lambda>j. (ucast ((255 :: u32) + of_nat j) :: u16)
                                  \<notin> set (overlay_sector_id ?s)) [0..<unat (2 :: u16)]) = 1"
    unfolding ids key_in_full two by (simp add: MAX_OVERLAY_SECTORS_def)
  have ex: "count_list (overlay_sector_id ?s) 0xFFFF
           < length (filter (\<lambda>j. (ucast ((255 :: u32) + of_nat j) :: u16)
                                  \<notin> set (overlay_sector_id ?s)) [0..<unat (2 :: u16)])"
    unfolding free need by simp
  from overlay_exhaustion [OF inv ov sm r1 r2 l1 ex, of False]
  show ?thesis by auto
qed


section \<open>Properties of the file system\<close>

text \<open>Mounting from the initial state gives the default layout.\<close>

lemma mount_initial: "f_mount fs_initial True = Some (FR_OK, mounted)"
  by code_simp

lemma memcpy_prefix:
  "soff + n \<le> length src \<Longrightarrow> memcpy dst 0 src soff n = take n (drop soff src) @ drop n dst"
  by (simp add: memcpy_def)

text \<open>
  Claim C7. For a mounted file system and a file object that points to a node,
  \<^verbatim>\<open>f_read\<close> is to copy \<open>k\<close> bytes, \<open>k\<close> the smaller of the requested length and of the
  size less the cursor (0 when the cursor is at or past the size), from the content
  buffer at the cursor, or zeros when the node has no buffer, to advance the cursor by
  \<open>k\<close>, to store \<open>k\<close> in \<^verbatim>\<open>*br\<close> and to return \<^verbatim>\<open>FR_OK\<close>. It does so when the node has no
  buffer, and when the buffer holds the \<open>k\<close> bytes at the cursor. When the buffer is
  shorter, the \<^verbatim>\<open>memcpy\<close> reads past the end of the heap block, and the bytes are not
  taken from the content of the file. The code reaches such a buffer by itself: a file
  of the default layout has a size and no buffer, and for a write that ends before
  the size \<^verbatim>\<open>fs_file_ensure_capacity\<close> allocates only up to the end of the write, zeroes
  \<^verbatim>\<open>size\<close> bytes of it, and \<^verbatim>\<open>f_write\<close> leaves the size as it was.
\<close>

theorem f_read_copies:
  assumes m: "g_mounted s" and dp: "dir_ptr f = Some n"
  shows "\<exists>k. unat k = min (unat btr) (unat (size' (g_node_pool s ! n)) - unat (fptr f))
           \<and> unat (fptr f + k) = unat (fptr f) + unat k
           \<and> (data (g_node_pool s ! n) = None \<longrightarrow>
                f_read s (Some f) (Some b) btr br
                  = Some (FR_OK, Some (f\<lparr> fptr := fptr f + k \<rparr>),
                          Some (replicate (unat k) 0 @ drop (unat k) b),
                          map_option (\<lambda>_. k) br))
           \<and> (\<forall>d. data (g_node_pool s ! n) = Some d
                    \<and> (k = 0 \<or> unat (fptr f) + unat k \<le> length d) \<longrightarrow>
                f_read s (Some f) (Some b) btr br
                  = Some (FR_OK, Some (f\<lparr> fptr := fptr f + k \<rparr>),
                          Some (take (unat k) (drop (unat (fptr f)) d) @ drop (unat k) b),
                          map_option (\<lambda>_. k) br)
                \<and> length (take (unat k) (drop (unat (fptr f)) d)) = unat k)
           \<and> (\<forall>d. data (g_node_pool s ! n) = Some d
                    \<and> k \<noteq> 0 \<and> length d < unat (fptr f) + unat k \<longrightarrow>
                f_read s (Some f) (Some b) btr br = None)"
proof (cases "size' (g_node_pool s ! n) \<le> fptr f")
  case True
  then have z: "unat (size' (g_node_pool s ! n)) - unat (fptr f) = 0"
    by (simp add: word_le_nat_alt)
  have r: "f_read s (Some f) (Some b) btr br = Some (FR_OK, Some f, Some b, map_option (\<lambda>_. 0) br)"
    using m dp True by (simp add: f_read_def)
  show ?thesis
    apply (rule exI [of _ 0])
    using z r by simp
next
  case False
  let ?node = "g_node_pool s ! n"
  let ?remain = "size' ?node - fptr f"
  let ?k = "if ?remain < btr then ?remain else btr"
  from False have lt: "fptr f < size' ?node" by simp
  then have le: "fptr f \<le> size' ?node" by simp
  have ur: "unat ?remain = unat (size' ?node) - unat (fptr f)" by (rule unat_sub [OF le])
  have uk: "unat ?k = min (unat btr) (unat (size' ?node) - unat (fptr f))"
    using ur by (auto simp: word_less_nat_alt)
  have bound: "unat (fptr f) + unat ?k \<le> unat (size' ?node)"
    using uk lt by (simp add: word_less_nat_alt)
  moreover have "unat (size' ?node) < 2 ^ 32" using unsigned_less [of "size' ?node"] by simp
  ultimately have ua: "unat (fptr f + ?k) = unat (fptr f) + unat ?k"
    by (simp add: unat_word_ariths)
  have a: "data ?node = None \<longrightarrow>
             f_read s (Some f) (Some b) btr br
               = Some (FR_OK, Some (f\<lparr> fptr := fptr f + ?k \<rparr>),
                       Some (replicate (unat ?k) 0 @ drop (unat ?k) b),
                       map_option (\<lambda>_. ?k) br)"
    using m dp False by (simp add: f_read_def Let_def)
  have b: "\<forall>d. data ?node = Some d \<and> (?k = 0 \<or> unat (fptr f) + unat ?k \<le> length d) \<longrightarrow>
             f_read s (Some f) (Some b) btr br
               = Some (FR_OK, Some (f\<lparr> fptr := fptr f + ?k \<rparr>),
                       Some (take (unat ?k) (drop (unat (fptr f)) d) @ drop (unat ?k) b),
                       map_option (\<lambda>_. ?k) br)
             \<and> length (take (unat ?k) (drop (unat (fptr f)) d)) = unat ?k"
  proof (intro allI impI)
    fix d
    assume d: "data ?node = Some d \<and> (?k = 0 \<or> unat (fptr f) + unat ?k \<le> length d)"
    show "f_read s (Some f) (Some b) btr br
               = Some (FR_OK, Some (f\<lparr> fptr := fptr f + ?k \<rparr>),
                       Some (take (unat ?k) (drop (unat (fptr f)) d) @ drop (unat ?k) b),
                       map_option (\<lambda>_. ?k) br)
             \<and> length (take (unat ?k) (drop (unat (fptr f)) d)) = unat ?k"
    proof (cases "?k = 0")
      case True
      then have k0: "unat ?k = 0" by (simp only: unat_0)
      have "f_read s (Some f) (Some b) btr br
               = Some (FR_OK, Some (f\<lparr> fptr := fptr f + ?k \<rparr>),
                       Some (memcpy b 0 d (unat (fptr f)) (unat ?k)),
                       map_option (\<lambda>_. ?k) br)"
        using m dp False d True by (simp add: f_read_def Let_def)
      moreover have "memcpy b 0 d (unat (fptr f)) (unat ?k)
                       = take (unat ?k) (drop (unat (fptr f)) d) @ drop (unat ?k) b"
        unfolding k0 by (simp add: memcpy_def)
      ultimately show ?thesis using k0 by simp
    next
      case False
      with d have fit: "unat (fptr f) + unat ?k \<le> length d" by blast
      then have nl: "\<not> length d < unat (fptr f) + unat ?k" by simp
      have "f_read s (Some f) (Some b) btr br
               = Some (FR_OK, Some (f\<lparr> fptr := fptr f + ?k \<rparr>),
                       Some (memcpy b 0 d (unat (fptr f)) (unat ?k)),
                       map_option (\<lambda>_. ?k) br)"
        using m dp \<open>\<not> size' ?node \<le> fptr f\<close> d nl by (simp add: f_read_def Let_def)
      moreover have "memcpy b 0 d (unat (fptr f)) (unat ?k)
                       = take (unat ?k) (drop (unat (fptr f)) d) @ drop (unat ?k) b"
        using fit by (rule memcpy_prefix)
      ultimately show ?thesis using fit by simp
    qed
  qed
  have c: "\<forall>d. data ?node = Some d \<and> ?k \<noteq> 0 \<and> length d < unat (fptr f) + unat ?k \<longrightarrow>
             f_read s (Some f) (Some b) btr br = None"
    using m dp False by (simp add: f_read_def Let_def)
  show ?thesis
    apply (rule exI [of _ ?k])
    apply (rule conjI, rule uk)
    apply (rule conjI, rule ua)
    apply (rule conjI, rule a)
    apply (rule conjI, rule b)
    apply (rule c)
    done
qed

lemma mounted_node8:
  "g_node_pool mounted ! 8 = file_node ''Readme.txt'' 0 (Some 9) 2048 12419"
  by (simp add: mounted_def)

text \<open>
  After \<^verbatim>\<open>f_open\<close> of \<^verbatim>\<open>/Readme.txt\<close> (2048 bytes) and \<^verbatim>\<open>f_write\<close> of ten bytes, which returns
  \<^verbatim>\<open>FR_OK\<close> after 2038 bytes written past the end of the new block of ten bytes, a read
  of 100 bytes at the cursor leaves the block; a read of the ten bytes at offset 0
  gives them back.
\<close>

lemma readme_open:
  "f_open mounted (Some zero_FIL) ''/Readme.txt'' (FA_READ OR FA_WRITE)
     = Some (FR_OK, Some readme_handle, mounted)"
  by code_simp

lemma readme_write:
  "f_write True junk mounted (Some readme_handle) (Some src10) 10 (Some 0)
     = Some (FR_OK, Some (readme_handle\<lparr> fptr := 10 \<rparr>), readme_written, Some 10, 2038)"
  by code_simp


lemma readme_written_node:
  "g_mounted readme_written"
  "size' (g_node_pool readme_written ! 8) = 2048"
  "data (g_node_pool readme_written ! 8) = Some src10"
  "length src10 = 10"
  by (simp_all add: readme_written_def mounted_def file_node_def src10_def)

theorem f_read_copies_witness:
  "f_open mounted (Some zero_FIL) ''/Readme.txt'' (FA_READ OR FA_WRITE)
     = Some (FR_OK, Some readme_handle, mounted)
   \<and> f_write True junk mounted (Some readme_handle) (Some src10) 10 (Some 0)
     = Some (FR_OK, Some (readme_handle\<lparr> fptr := 10 \<rparr>), readme_written, Some 10, 2038)
   \<and> f_read readme_written (Some (readme_handle\<lparr> fptr := 10 \<rparr>)) (Some (replicate 100 7)) 100
        (Some 0) = None
   \<and> f_read readme_written (Some readme_handle) (Some (replicate 100 7)) 10 (Some 0)
     = Some (FR_OK, Some (readme_handle\<lparr> fptr := 10 \<rparr>), Some (src10 @ replicate 90 7), Some 10)"
proof -
  let ?f = "readme_handle\<lparr> fptr := 10 \<rparr>"
  have dp: "dir_ptr ?f = Some 8" "dir_ptr readme_handle = Some 8" by (simp_all add: readme_handle_def)
  from f_read_copies [OF readme_written_node(1) dp(1), of 100 "replicate 100 7" "Some 0"]
  obtain k :: u32 where
        k: "unat k = min (unat (100 :: u32))
                       (unat (size' (g_node_pool readme_written ! 8)) - unat (fptr ?f))"
    and c: "\<forall>d. data (g_node_pool readme_written ! 8) = Some d
                    \<and> k \<noteq> 0 \<and> length d < unat (fptr ?f) + unat k \<longrightarrow>
                f_read readme_written (Some ?f) (Some (replicate 100 7)) 100 (Some 0) = None"
    by (elim exE conjE) (rule that, assumption+)
  from k have "unat k = 100" by (simp add: readme_written_node)
  then have k100: "k = 100" by (simp add: word_unat_eq_iff)
  have "data (g_node_pool readme_written ! 8) = Some src10
          \<and> k \<noteq> 0 \<and> length src10 < unat (fptr ?f) + unat k"
    unfolding k100 by (simp add: readme_written_node)
  with c have past: "f_read readme_written (Some ?f) (Some (replicate 100 7)) 100 (Some 0) = None"
    by blast
  from f_read_copies [OF readme_written_node(1) dp(2), of 10 "replicate 100 7" "Some 0"]
  obtain j :: u32 where
        j: "unat j = min (unat (10 :: u32))
                       (unat (size' (g_node_pool readme_written ! 8)) - unat (fptr readme_handle))"
    and b: "\<forall>d. data (g_node_pool readme_written ! 8) = Some d
                    \<and> (j = 0 \<or> unat (fptr readme_handle) + unat j \<le> length d) \<longrightarrow>
                f_read readme_written (Some readme_handle) (Some (replicate 100 7)) 10 (Some 0)
                  = Some (FR_OK, Some (readme_handle\<lparr> fptr := fptr readme_handle + j \<rparr>),
                          Some (take (unat j) (drop (unat (fptr readme_handle)) d)
                                @ drop (unat j) (replicate 100 7)),
                          map_option (\<lambda>_. j) (Some (0 :: u32)))
                \<and> length (take (unat j) (drop (unat (fptr readme_handle)) d)) = unat j"
    by (elim exE conjE) (rule that, assumption+)
  from j have "unat j = 10" by (simp add: readme_written_node readme_handle_def)
  then have j10: "j = 10" by (simp add: word_unat_eq_iff)
  have "data (g_node_pool readme_written ! 8) = Some src10
          \<and> (j = 0 \<or> unat (fptr readme_handle) + unat j \<le> length src10)"
    unfolding j10 by (simp add: readme_written_node readme_handle_def)
  with b have "f_read readme_written (Some readme_handle) (Some (replicate 100 7)) 10 (Some 0)
                  = Some (FR_OK, Some (readme_handle\<lparr> fptr := fptr readme_handle + j \<rparr>),
                          Some (take (unat j) (drop (unat (fptr readme_handle)) src10)
                                @ drop (unat j) (replicate 100 7)),
                          map_option (\<lambda>_. j) (Some (0 :: u32)))"
    by blast
  then have within: "f_read readme_written (Some readme_handle) (Some (replicate 100 7)) 10 (Some 0)
     = Some (FR_OK, Some (readme_handle\<lparr> fptr := 10 \<rparr>), Some (src10 @ replicate 90 7), Some 10)"
    unfolding j10 by (simp add: readme_handle_def readme_written_node)
  from readme_open readme_write past within show ?thesis by (intro conjI)
qed

text \<open>
  Claim C9. With the file system mounted and the directory object open, a call of
  \<^verbatim>\<open>f_readdir\<close> with a null \<^verbatim>\<open>fno\<close> returns \<^verbatim>\<open>FR_OK\<close>, yields no entry, and sets the global
  cursor back to the first child of the iterated directory (to \<^verbatim>\<open>NULL\<close> when no
  directory is iterated); the next call with a \<^verbatim>\<open>fno\<close> then yields the first child
  again, whatever the cursor was before.
\<close>

theorem f_readdir_null_rewinds:
  assumes m: "g_mounted s" and d: "dir d \<noteq> 0"
  shows "f_readdir fsz s (Some d) None
           = (FR_OK,
              s\<lparr> g_iter_next := (case g_iter_dir s of
                                    Some it \<Rightarrow> firstChild (g_node_pool s ! it)
                                  | None \<Rightarrow> None) \<rparr>,
              None)
       \<and> (\<forall>it c. g_iter_dir s = Some it \<and> firstChild (g_node_pool s ! it) = Some c \<longrightarrow>
             f_readdir fsz (fst (snd (f_readdir fsz s (Some d) None))) (Some d) (Some i)
               = (FR_OK,
                  s\<lparr> g_iter_next := nextSibling (g_node_pool s ! c) \<rparr>,
                  Some (i\<lparr> fname := take (fsz - 1) (name (g_node_pool s ! c)),
                           fattrib := attr (g_node_pool s ! c),
                           fsize := (if attr (g_node_pool s ! c) AND AM_DIR \<noteq> 0 then 0
                                     else size' (g_node_pool s ! c)) \<rparr>)))"
  using m d by (simp add: f_readdir_def)

lemma mounted_nodes:
  "g_node_pool mounted ! 0 = dir_node [] None (Some 1) None"
  "g_node_pool mounted ! 1 = dir_node ''SYSTEM'' (Some 0) (Some 2) (Some 5)"
  "g_node_pool mounted ! Suc 0 = dir_node ''SYSTEM'' (Some 0) (Some 2) (Some 5)"
  "g_node_pool mounted ! 2 = dir_node ''PATCH'' (Some 1) None (Some 3)"
  "g_node_pool mounted ! 5 = file_node ''ALTT.gba'' 0 (Some 6) 8388608 3"
  by (simp_all add: mounted_def)

theorem f_readdir_null_rewinds_witness:
  "f_readdir 256
     (fst (snd (f_readdir 256 (mounted\<lparr> g_iter_dir := Some 0, g_iter_next := Some 5 \<rparr>)
                  (Some \<lparr> dir = 1 \<rparr>) None)))
     (Some \<lparr> dir = 1 \<rparr>) (Some \<lparr> fsize = 0, fattrib = 0, fname = [] \<rparr>)
   = (FR_OK, mounted\<lparr> g_iter_dir := Some 0, g_iter_next := Some 5 \<rparr>,
      Some \<lparr> fsize = 0, fattrib = AM_DIR, fname = ''SYSTEM'' \<rparr>)"
proof -
  let ?s = "mounted\<lparr> g_iter_dir := Some 0, g_iter_next := Some 5 \<rparr>"
  have m: "g_mounted ?s" by (simp add: mounted_def)
  have d: "dir \<lparr> dir = 1 \<rparr> \<noteq> 0" by simp
  have p: "g_node_pool ?s = g_node_pool mounted" by simp
  have it: "g_iter_dir ?s = Some 0 \<and> firstChild (g_node_pool ?s ! 0) = Some 1"
    by (simp add: mounted_nodes dir_node_def)
  from f_readdir_null_rewinds [OF m d, of 256 "\<lparr> fsize = 0, fattrib = 0, fname = [] \<rparr>"] it
  have "f_readdir 256 (fst (snd (f_readdir 256 ?s (Some \<lparr> dir = 1 \<rparr>) None))) (Some \<lparr> dir = 1 \<rparr>)
          (Some \<lparr> fsize = 0, fattrib = 0, fname = [] \<rparr>)
        = (FR_OK,
                  ?s\<lparr> g_iter_next := nextSibling (g_node_pool ?s ! 1) \<rparr>,
                  Some (\<lparr> fsize = 0, fattrib = 0, fname = [] \<rparr>
                         \<lparr> fname := take (256 - 1) (name (g_node_pool ?s ! 1)),
                           fattrib := attr (g_node_pool ?s ! 1),
                           fsize := (if attr (g_node_pool ?s ! 1) AND AM_DIR \<noteq> 0 then 0
                                     else size' (g_node_pool ?s ! 1)) \<rparr>))"
    by blast
  then show ?thesis
    unfolding p by (simp add: mounted_nodes dir_node_def AM_DIR_def)
qed

lemma unat_csize_bytes:
  fixes c :: u16
  shows "unat ((ucast c :: u32) * 512) = unat c * 512"
proof -
  have "unat c < 65536" using unsigned_less [of c] by simp
  then have "unat c * 512 < 2 ^ 32" by simp
  then show ?thesis by (simp add: unat_word_ariths unat_ucast_u16_u32)
qed

lemma cluster_count:
  fixes sz csb :: u32
  assumes "csb \<noteq> 0" "unat sz + unat csb - 1 < 2 ^ 32"
  shows "unat ((sz + csb - 1) div csb) = (unat sz + unat csb - 1) div unat csb"
proof -
  from assms(1) have pos: "0 < unat csb" by (simp add: unat_gt_0)
  then have le: "unat sz + unat csb < 2 ^ 32 + 1" using assms(2) by simp
  have "unat (sz + csb - 1) = unat sz + unat csb - 1"
  proof (cases "unat sz + unat csb < 2 ^ 32")
    case True
    then have a: "unat (sz + csb) = unat sz + unat csb" by (simp add: unat_word_ariths)
    with pos have "unat (sz + csb) \<noteq> 0" by simp
    then have "sz + csb \<noteq> 0" by (simp add: unat_eq_zero)
    then have "unat (sz + csb - 1) = unat (sz + csb) - 1" by (rule unat_minus_one)
    with a show ?thesis by simp
  next
    case False
    with le have e: "unat sz + unat csb = 2 ^ 32" by simp
    then have "unat (sz + csb) = 0" by (simp add: unat_word_ariths)
    then have "sz + csb = 0" by (simp add: unat_eq_zero)
    then have "sz + csb - 1 = - 1" by simp
    then have "unat (sz + csb - 1) = 2 ^ 32 - 1"
      by (simp add: unsigned_minus_1_eq_mask mask_eq_exp_minus_1)
    with e show ?thesis by simp
  qed
  then show ?thesis by (simp add: unat_div)
qed

lemma mounted_clusters:
  "map (\<lambda>i. startCluster (g_node_pool mounted ! i)) [4, 5, 6, 7, 8, 10, 11]
     = [2, 3, 4099, 12291, 12419, 12420, 28804]"
  by (simp add: mounted_def file_node_def)

lemma three_minus_one_div:
  assumes "0 < (c :: nat)"
  shows "(3 * c - 1) div c = 2"
proof -
  from assms have "3 * c - 1 = (c - 1) + 2 * c" by simp
  moreover have "((c - 1) + 2 * c) div c = 2 + (c - 1) div c"
    using assms by (intro div_mult_self1) simp
  moreover have "(c - 1) div c = 0" using assms by simp
  ultimately show ?thesis by simp
qed

text \<open>
  Claim C6. \<^verbatim>\<open>fs_assign_clusters\<close> gives a file the cluster counter as its start cluster and
  advances the counter by the cluster count of the file: the size divided by the
  cluster size in bytes (sectors per cluster times 512) and rounded up, at least 1
  (the size plus the cluster size stays within 32 bits, as for every size the program
  assigns). The counter starts at 2, and a mount from the initial state gives the
  files of the default layout the consecutive ranges that start at 2. For a file
  object of exactly two clusters whose start cluster is a cluster number (not 0, and
  not the last 32-bit value), \<^verbatim>\<open>Get_NextCluster\<close> of the start cluster is the start
  cluster plus 1, and \<^verbatim>\<open>Get_NextCluster\<close> of that one is the end marker \<^verbatim>\<open>0xFFFF\<close>.
\<close>

theorem cluster_assignment:
  assumes fs: "g_fs s = Some fs" and cs: "csize fs \<noteq> 0"
      and isfile: "attr (g_node_pool s ! n) AND AM_DIR = 0" and n: "n < length (g_node_pool s)"
      and nov: "unat (size' (g_node_pool s ! n)) + unat (csize fs) * 512 - 1 < 2 ^ 32"
      and ob: "objsize ob = 2 * (ucast (csize fs) * 512)" "sclust ob = start"
      and start: "start \<noteq> 0" "start \<noteq> 0xFFFFFFFF"
  shows "(\<exists>s' ncl. fs_assign_clusters s (Some n) = Some s'
            \<and> startCluster (g_node_pool s' ! n) = g_nextCluster s
            \<and> g_nextCluster s' = g_nextCluster s + ncl
            \<and> unat ncl = max 1 ((unat (size' (g_node_pool s ! n)) + unat (csize fs) * 512 - 1)
                                  div (unat (csize fs) * 512)))
       \<and> Get_NextCluster s (Some ob) start = start + 1
       \<and> Get_NextCluster s (Some ob) (start + 1) = 0xFFFF
       \<and> g_nextCluster fs_initial = 2
       \<and> (\<exists>s0. f_mount fs_initial True = Some (FR_OK, s0)
              \<and> map (\<lambda>i. startCluster (g_node_pool s0 ! i)) [4, 5, 6, 7, 8, 10, 11]
                  = [2, 3, 4099, 12291, 12419, 12420, 28804])"
proof -
  let ?csb = "(ucast (csize fs) :: u32) * 512"
  let ?sz = "size' (g_node_pool s ! n)"
  have ucsb: "unat ?csb = unat (csize fs) * 512" by (rule unat_csize_bytes)
  from cs have "unat (csize fs) \<noteq> 0" by (simp add: unat_eq_zero)
  with ucsb have "unat ?csb \<noteq> 0" by simp
  then have csb0: "?csb \<noteq> 0" by (metis unat_0)
  have c16: "unat (csize fs) < 65536" using unsigned_less [of "csize fs"] by simp
  \<comment> \<open>the assignment\<close>
  let ?raw = "(?sz + ?csb - 1) div ?csb"
  let ?ncl = "if ?raw = 0 then 1 else ?raw"
  have u0: "unat ?raw = (unat ?sz + unat (csize fs) * 512 - 1) div (unat (csize fs) * 512)"
  proof -
    have nov': "unat ?sz + unat ?csb - 1 < 2 ^ 32" using nov by (simp only: ucsb)
    show ?thesis using cluster_count [OF csb0 nov'] by (simp only: ucsb)
  qed
  have uncl: "unat ?ncl = max 1 ((unat ?sz + unat (csize fs) * 512 - 1) div (unat (csize fs) * 512))"
  proof (cases "?raw = 0")
    case True
    then have "unat ?raw = 0" by simp
    with u0 True show ?thesis by simp
  next
    case False
    then have "unat ?raw \<noteq> 0" by (simp add: unat_eq_zero)
    with u0 False show ?thesis by simp
  qed
  let ?s' = "s\<lparr> g_node_pool := (g_node_pool s)
                     [n := (g_node_pool s ! n)\<lparr> startCluster := g_nextCluster s \<rparr>],
                 g_nextCluster := g_nextCluster s + ?ncl \<rparr>"
  have A: "fs_assign_clusters s (Some n) = Some ?s'"
    using fs isfile csb0 by (simp add: fs_assign_clusters_def Let_def)
  have B: "startCluster (g_node_pool ?s' ! n) = g_nextCluster s" using n by simp
  have part1: "\<exists>s' ncl. fs_assign_clusters s (Some n) = Some s'
            \<and> startCluster (g_node_pool s' ! n) = g_nextCluster s
            \<and> g_nextCluster s' = g_nextCluster s + ncl
            \<and> unat ncl = max 1 ((unat ?sz + unat (csize fs) * 512 - 1)
                                  div (unat (csize fs) * 512))"
    using A B uncl by (intro exI [of _ ?s'] exI [of _ ?ncl]) simp
  \<comment> \<open>the chain of a file of two clusters\<close>
  have u2: "unat (2 * ?csb) = 2 * (unat (csize fs) * 512)"
  proof -
    have "unat ?csb + unat ?csb < 2 ^ LENGTH(32)" unfolding ucsb using c16 by simp
    then have "unat (?csb + ?csb) = unat ?csb + unat ?csb" by (rule unat_add_lem [THEN iffD1])
    moreover have "2 * ?csb = ?csb + ?csb" by simp
    ultimately have "unat (2 * ?csb) = unat ?csb + unat ?csb" by (simp only:)
    also have "\<dots> = 2 * (unat (csize fs) * 512)" unfolding ucsb by simp
    finally show ?thesis .
  qed
  have nov2: "unat (2 * ?csb) + unat ?csb - 1 < 2 ^ 32" using c16 u2 ucsb by simp
  have "unat ((2 * ?csb + ?csb - 1) div ?csb) = (unat (2 * ?csb) + unat ?csb - 1) div unat ?csb"
    by (rule cluster_count [OF csb0 nov2])
  also have "\<dots> = (3 * (unat (csize fs) * 512) - 1) div (unat (csize fs) * 512)"
    using u2 ucsb by simp
  also have "\<dots> = 2"
    using \<open>unat (csize fs) \<noteq> 0\<close> by (intro three_minus_one_div) simp
  finally have "unat ((2 * ?csb + ?csb - 1) div ?csb) = 2" .
  then have two: "(2 * ?csb + ?csb - 1) div ?csb = 2" by (simp add: word_unat_eq_iff)
  have s1: "start < start + 1"
  proof -
    from start(2) have "unat start \<noteq> 4294967295" by (simp add: word_unat_eq_iff)
    moreover have "unat start < 2 ^ 32" using unsigned_less [of start] by simp
    ultimately have "unat start + 1 < 2 ^ 32" by simp
    then have "unat (start + 1) = unat start + 1" by (simp add: unat_word_ariths)
    then show ?thesis by (simp add: word_less_nat_alt)
  qed
  have n21: "\<not> (2 :: u32) \<le> 1" by (simp add: word_le_nat_alt)
  have part2: "Get_NextCluster s (Some ob) start = start + 1"
    using fs ob start csb0 two n21 by (simp add: Get_NextCluster_def Let_def)
  have s2: "\<not> start + 1 < start" using s1 by (simp only: not_less less_imp_le)
  have part3: "Get_NextCluster s (Some ob) (start + 1) = 0xFFFF"
    using fs ob start csb0 two s1 s2 by (simp add: Get_NextCluster_def Let_def)
  have part4: "\<exists>s0. f_mount fs_initial True = Some (FR_OK, s0)
              \<and> map (\<lambda>i. startCluster (g_node_pool s0 ! i)) [4, 5, 6, 7, 8, 10, 11]
                  = [2, 3, 4099, 12291, 12419, 12420, 28804]"
    by (rule exI [of _ mounted]) (simp only: mount_initial mounted_clusters)
  show ?thesis
    apply (rule conjI, rule part1)
    apply (rule conjI, rule part2)
    apply (rule conjI, rule part3)
    apply (rule conjI, simp add: fs_initial_def)
    apply (rule part4)
    done
qed

theorem cluster_assignment_witness:
  "map_option g_nextCluster (fs_assign_clusters mounted (Some 8)) = Some 36997
   \<and> map_option (\<lambda>s. startCluster (g_node_pool s ! 8)) (fs_assign_clusters mounted (Some 8))
       = Some 36996
   \<and> Get_NextCluster mounted
         (Some \<lparr> obj_fs = True, obj_id = 0x1234, obj_attr = AM_ARC, sclust = 12419, objsize = 4096 \<rparr>)
         12419 = 12420
   \<and> Get_NextCluster mounted
         (Some \<lparr> obj_fs = True, obj_id = 0x1234, obj_attr = AM_ARC, sclust = 12419, objsize = 4096 \<rparr>)
         12420 = 0xFFFF"
proof -
  let ?fs = "\<lparr> fs_type = FS_FAT16, csize = 4, fs_id = 0x1234, n_fatent = 0x10000,
                database = 2048 \<rparr>"
  let ?ob = "\<lparr> obj_fs = True, obj_id = 0x1234, obj_attr = AM_ARC, sclust = 12419, objsize = 4096 \<rparr>"
  have fs: "g_fs mounted = Some ?fs" by (simp add: mounted_def)
  have cs: "csize ?fs \<noteq> 0" by simp
  have isfile: "attr (g_node_pool mounted ! 8) AND AM_DIR = 0"
    by (simp add: mounted_node8 file_node_def AM_DIR_def AM_ARC_def)
  have n: "8 < length (g_node_pool mounted)" by (simp add: mounted_def)
  have nov: "unat (size' (g_node_pool mounted ! 8)) + unat (csize ?fs) * 512 - 1 < 2 ^ 32"
    by (simp add: mounted_node8 file_node_def)
  have ob: "objsize ?ob = 2 * (ucast (csize ?fs) * 512)" "sclust ?ob = 12419" by simp_all
  have st: "(12419 :: u32) \<noteq> 0" "(12419 :: u32) \<noteq> 0xFFFFFFFF" by simp_all
  from cluster_assignment [OF fs cs isfile n nov ob st]
  obtain s' and ncl :: u32 where
        a: "fs_assign_clusters mounted (Some 8) = Some s'"
    and b: "startCluster (g_node_pool s' ! 8) = g_nextCluster mounted"
    and c: "g_nextCluster s' = g_nextCluster mounted + ncl"
    and d: "unat ncl = max 1 ((unat (size' (g_node_pool mounted ! 8)) + unat (csize ?fs) * 512 - 1)
                                  div (unat (csize ?fs) * 512))"
    and e: "Get_NextCluster mounted (Some ?ob) 12419 = 12419 + 1"
    and f: "Get_NextCluster mounted (Some ?ob) (12419 + 1) = 0xFFFF"
    by (elim exE conjE) (rule that, assumption+)
  from d have "unat ncl = 1" by (simp add: mounted_node8 file_node_def)
  then have "ncl = 1" by (simp add: word_unat_eq_iff)
  moreover have "g_nextCluster mounted = 36996" by (simp add: mounted_def)
  ultimately show ?thesis using a b c e f by simp
qed

lemma open_node_cursor:
  "open_node s n mode = Some (FR_OK, Some f, s') \<Longrightarrow> fptr f = 0 \<and> flag f = mode \<and> dir_ptr f = Some n"
  by (auto simp: open_node_def split: if_splits option.splits)

lemma f_open_cursor:
  assumes "f_open s fp path mode = Some (FR_OK, Some f, s')"
  shows "fptr f = 0"
  using assms
  by (auto simp: f_open_def Let_def split: if_splits option.splits prod.splits Option.bind_splits
           dest: open_node_cursor)

text \<open>
  Claim C3. For a mounted file system and a file object: \<^verbatim>\<open>f_open\<close> returns \<^verbatim>\<open>FR_NO_FILE\<close>
  when the path does not resolve and the mode has no creation flag; it returns
  \<^verbatim>\<open>FR_INVALID_OBJECT\<close> when the path resolves to a directory; when the path resolves to
  a file it returns \<^verbatim>\<open>FR_OK\<close> and the handle of that file, whatever the mode, so also
  under \<^verbatim>\<open>FA_CREATE_NEW\<close>, where the claim asks for \<^verbatim>\<open>FR_EXIST\<close>: the test of
  \<^verbatim>\<open>FA_CREATE_NEW\<close> is in the branch of a path that did not resolve. Every handle
  returned with \<^verbatim>\<open>FR_OK\<close> has its cursor at 0.
\<close>

theorem f_open_results:
  assumes m: "g_mounted s" and fs: "g_fs s = Some fs"
  shows "(fs_resolve s path = Some None
            \<and> mode AND (FA_CREATE_ALWAYS OR FA_OPEN_ALWAYS OR FA_CREATE_NEW) = 0
          \<longrightarrow> f_open s (Some fp) path mode = Some (FR_NO_FILE, Some zero_FIL, s))
       \<and> (fs_resolve s path = Some (Some n) \<and> attr (g_node_pool s ! n) AND AM_DIR \<noteq> 0
          \<longrightarrow> f_open s (Some fp) path mode = Some (FR_INVALID_OBJECT, Some zero_FIL, s))
       \<and> (fs_resolve s path = Some (Some n) \<and> attr (g_node_pool s ! n) AND AM_DIR = 0
          \<longrightarrow> f_open s (Some fp) path mode
                = Some (FR_OK,
                        Some \<lparr> obj = \<lparr> obj_fs = True, obj_id = fs_id fs,
                                       obj_attr = attr (g_node_pool s ! n),
                                       sclust = startCluster (g_node_pool s ! n),
                                       objsize = size' (g_node_pool s ! n) \<rparr>,
                               flag = mode, err = 0, fptr = 0,
                               clust = startCluster (g_node_pool s ! n), sect = 0,
                               dir_ptr = Some n \<rparr>,
                        s))
       \<and> (\<forall>f s'. f_open s (Some fp) path mode = Some (FR_OK, Some f, s') \<longrightarrow> fptr f = 0)"
proof (intro conjI impI allI)
  assume "fs_resolve s path = Some None
            \<and> mode AND (FA_CREATE_ALWAYS OR FA_OPEN_ALWAYS OR FA_CREATE_NEW) = 0"
  then show "f_open s (Some fp) path mode = Some (FR_NO_FILE, Some zero_FIL, s)"
    using m by (simp add: f_open_def)
next
  assume "fs_resolve s path = Some (Some n) \<and> attr (g_node_pool s ! n) AND AM_DIR \<noteq> 0"
  then show "f_open s (Some fp) path mode = Some (FR_INVALID_OBJECT, Some zero_FIL, s)"
    using m by (simp add: f_open_def open_node_def)
next
  assume "fs_resolve s path = Some (Some n) \<and> attr (g_node_pool s ! n) AND AM_DIR = 0"
  then show "f_open s (Some fp) path mode
                = Some (FR_OK,
                        Some \<lparr> obj = \<lparr> obj_fs = True, obj_id = fs_id fs,
                                       obj_attr = attr (g_node_pool s ! n),
                                       sclust = startCluster (g_node_pool s ! n),
                                       objsize = size' (g_node_pool s ! n) \<rparr>,
                               flag = mode, err = 0, fptr = 0,
                               clust = startCluster (g_node_pool s ! n), sect = 0,
                               dir_ptr = Some n \<rparr>,
                        s)"
    using m fs by (simp add: f_open_def open_node_def)
next
  fix f s'
  assume "f_open s (Some fp) path mode = Some (FR_OK, Some f, s')"
  then show "fptr f = 0" by (rule f_open_cursor)
qed

lemma resolve_readme: "fs_resolve mounted ''/Readme.txt'' = Some (Some 8)"
  by code_simp

theorem f_open_results_witness:
  "f_open mounted (Some zero_FIL) ''/Readme.txt'' (FA_CREATE_NEW OR FA_WRITE)
     = Some (FR_OK,
             Some \<lparr> obj = \<lparr> obj_fs = True, obj_id = 0x1234, obj_attr = AM_ARC, sclust = 12419,
                            objsize = 2048 \<rparr>,
                    flag = FA_CREATE_NEW OR FA_WRITE, err = 0, fptr = 0, clust = 12419, sect = 0,
                    dir_ptr = Some 8 \<rparr>,
             mounted)"
proof -
  have m: "g_mounted mounted" by (simp add: mounted_def)
  have fs: "g_fs mounted = Some \<lparr> fs_type = FS_FAT16, csize = 4, fs_id = 0x1234, n_fatent = 0x10000,
                      database = 2048 \<rparr>" by (simp add: mounted_def)
  have a: "fs_resolve mounted ''/Readme.txt'' = Some (Some 8)
             \<and> attr (g_node_pool mounted ! 8) AND AM_DIR = 0"
    by (simp add: resolve_readme mounted_node8 file_node_def AM_DIR_def AM_ARC_def)
  from f_open_results [OF m fs, where path = "''/Readme.txt''" and n = 8 and fp = zero_FIL
                          and mode = "FA_CREATE_NEW OR FA_WRITE"] a
  have "f_open mounted (Some zero_FIL) ''/Readme.txt'' (FA_CREATE_NEW OR FA_WRITE)
                = Some (FR_OK,
                        Some \<lparr> obj = \<lparr> obj_fs = True, obj_id = fs_id \<lparr> fs_type = FS_FAT16, csize = 4, fs_id = 0x1234, n_fatent = 0x10000,
                      database = 2048 \<rparr>,
                                       obj_attr = attr (g_node_pool mounted ! 8),
                                       sclust = startCluster (g_node_pool mounted ! 8),
                                       objsize = size' (g_node_pool mounted ! 8) \<rparr>,
                               flag = FA_CREATE_NEW OR FA_WRITE, err = 0, fptr = 0,
                               clust = startCluster (g_node_pool mounted ! 8), sect = 0,
                               dir_ptr = Some 8 \<rparr>,
                        mounted)"
    by blast
  then show ?thesis by (simp add: mounted_node8 file_node_def)
qed

subsection \<open>Removing a node\<close>



lemma sib_list_end_fun:
  "sib_list pool it cs e \<Longrightarrow> sib_list pool it cs e' \<Longrightarrow> e = e'"
  by (induction cs arbitrary: it) auto




































end
